theory Spec2Isabelle
  imports Complex_Main
begin

section \<open>Exceptions\<close>

text \<open>
  The exceptions of the modelled functions, as values. \<open>attest\<close> raises an
  \<open>AssertionError\<close> with its message; the four messages of the codec are the
  constructors of \<open>attest_message\<close>.

  \<open>NonFiniteFloat\<close> is not an exception of the program. Python and numpy floating
  point values are modelled as real numbers, and the tokens \<open>inf\<close>, \<open>infinity\<close> and
  \<open>nan\<close>, which the number parser reads as the float infinities and the float
  not-a-number, have no real value: where the program goes on with such a float, the
  model stops with \<open>NonFiniteFloat\<close> and says nothing about what follows.
\<close>

datatype attest_message =
    Domain_must_be_implicit
  | Must_be_1D_or_3x1D
  | Non_uniform_domain_unsupported
  | Only_1_or_3_components

datatype error =
    AssertionError attest_message
  | ValidationError
  | ValueError
  | TypeError
  | OverflowError
  | IndexError
  | UnboundLocalError
  | FileNotFoundError
  | NonFiniteFloat

section \<open>Numeric helpers\<close>

text \<open>
  Python and numpy floating point values are modelled as real numbers and Python
  integers as \<open>int\<close>: every formula below is the source's formula read in exact
  arithmetic. The transfer functions act elementwise on arrays, so they are modelled
  on one scalar. Real arithmetic has no rounding and no overflow: a bit depth from 1024,
  whose \<open>I_max\<close> is beyond the largest float, is outside what the model describes.
\<close>

text \<open>\<open>numpy.round\<close>: rounding to the nearest integer, ties to the even neighbour.\<close>

definition np_round :: "real \<Rightarrow> int" where
  "np_round x =
     (let f = \<lfloor>x\<rfloor>; r = x - of_int f
      in if r < 1 / 2 then f
         else if 1 / 2 < r then f + 1
         else if even f then f else f + 1)"

text \<open>
  Modelled from the spec: \<open>colour.algebra.spow\<close> is not among the sources. The
  signed power raises the magnitude of the base to the exponent and reapplies the
  sign of the base.
\<close>

definition spow :: "real \<Rightarrow> real \<Rightarrow> real" where
  "spow a p = sgn a * (\<bar>a\<bar> powr p)"

text \<open>
  Modelled from the spec: \<open>colour.utilities.to_domain_1\<close> and
  \<open>colour.utilities.from_range_1\<close> are not among the sources. Under the default
  ("reference") domain-range scale, and under "ignore", they leave the value as it is.
\<close>

definition to_domain_1 :: "real \<Rightarrow> real" where
  "to_domain_1 a = a"

definition from_range_1 :: "real \<Rightarrow> real" where
  "from_range_1 a = a"

text \<open>
  \<open>numpy.select(condlist, choicelist)\<close>: the choice of the first condition that
  holds, and the default \<open>0\<close> when none does. Conditions and choices are paired.
\<close>

fun np_select :: "(bool \<times> real) list \<Rightarrow> real" where
  "np_select [] = 0"
| "np_select ((c, v) # rest) = (if c then v else np_select rest)"

text \<open>
  The encoders return an integer code value (\<open>as_int\<close>) when \<open>out_int\<close> is set and
  a float (\<open>as_float\<close>) otherwise.
\<close>

datatype number = IntCode int | FloatVal real

fun number_value :: "number \<Rightarrow> real" where
  "number_value (IntCode i) = of_int i"
| "number_value (FloatVal x) = x"

text \<open>
  Modelled from the spec: \<open>colour.utilities.as_int\<close> is not among the sources. It casts
  the rounded float array to the default integer type, \<open>int64\<close>. A value in the range
  of \<open>int64\<close> is kept. A value outside the range has no defined cast in C; the
  conversion of x86-64, on which numpy relies, gives \<open>-2\<^sup>6\<^sup>3\<close> for it.
\<close>

definition as_int :: "int \<Rightarrow> int" where
  "as_int i = (if - (2 ^ 63) \<le> i \<and> i < 2 ^ 63 then i else - (2 ^ 63))"

text \<open>
  \<open>as_int(np.round(X_p))\<close>. Up to bit depth 64 the Python integer \<open>I_max\<close> fits the
  64-bit integers of numpy and \<open>X_p\<close> is an array of floats. From bit depth 65 it does
  not: numpy holds \<open>I_max\<close> as a Python object, the products with it make \<open>X_p\<close> an
  array of objects, and \<open>np.round\<close> of such an array raises \<open>TypeError\<close>. The float
  mode, which divides by \<open>I_max\<close> and converts with \<open>as_float\<close>, is not affected.
\<close>

definition int_code_value :: "int \<Rightarrow> real \<Rightarrow> error + number" where
  "int_code_value bit_depth X_p =
     (if 65 \<le> bit_depth then Inl TypeError else Inr (IntCode (as_int (np_round X_p))))"

text \<open>
  The order of two results of an encoder: both calls return, and the returned numbers
  are in order.
\<close>

fun result_le :: "error + number \<Rightarrow> error + number \<Rightarrow> bool" where
  "result_le (Inr a) (Inr b) = (number_value a \<le> number_value b)"
| "result_le _ _ = False"

text \<open>
  \<open>I_max = 2**bit_depth - 1\<close>. Python's \<open>2**b\<close> is the integer power for
  \<open>b \<ge> 0\<close> and the float \<open>2.0**b\<close> for \<open>b < 0\<close>; \<open>powr\<close> covers both.
\<close>

definition I_max_of :: "int \<Rightarrow> real" where
  "I_max_of bit_depth = 2 powr (of_int bit_depth) - 1"

section \<open>RIMM, ROMM and ERIMM encodings\<close>

definition cctf_encoding_ROMMRGB :: "real \<Rightarrow> int \<Rightarrow> bool \<Rightarrow> error + number" where
  "cctf_encoding_ROMMRGB X0 bit_depth out_int =
     (let X = to_domain_1 X0;
          I_max = I_max_of bit_depth;
          E_t = 16 powr (1.8 / (1 - 1.8));
          X_p = (if X < E_t then X * 16 * I_max else spow X (1 / 1.8) * I_max)
      in if out_int then int_code_value bit_depth X_p
         else Inr (FloatVal (from_range_1 (X_p / I_max))))"

definition cctf_decoding_ROMMRGB :: "real \<Rightarrow> int \<Rightarrow> bool \<Rightarrow> real" where
  "cctf_decoding_ROMMRGB X_p0 bit_depth in_int =
     (let X_p1 = to_domain_1 X_p0;
          I_max = I_max_of bit_depth;
          X_p = (if \<not> in_int then X_p1 * I_max else X_p1);
          E_t = 16 powr (1.8 / (1 - 1.8));
          X = (if X_p < 16 * E_t * I_max then X_p / (16 * I_max)
               else spow (X_p / I_max) 1.8)
      in from_range_1 X)"

definition V_clip_of :: "real \<Rightarrow> real" where
  "V_clip_of E_clip = 1.099 * spow E_clip 0.45 - 0.099"

definition cctf_encoding_RIMMRGB ::
  "real \<Rightarrow> int \<Rightarrow> bool \<Rightarrow> real \<Rightarrow> error + number" where
  "cctf_encoding_RIMMRGB X0 bit_depth out_int E_clip =
     (let X = to_domain_1 X0;
          I_max = I_max_of bit_depth;
          V_clip = V_clip_of E_clip;
          q = I_max / V_clip;
          X_p = q * np_select
                  [(X < 0.0, 0),
                   (X < 0.018, 4.5 * X),
                   (X \<ge> 0.018, 1.099 * spow X 0.45 - 0.099),
                   (X > E_clip, I_max)]
      in if out_int then int_code_value bit_depth X_p
         else Inr (FloatVal (from_range_1 (X_p / I_max))))"

text \<open>
  The RIMM decoder calls the encoder, in float mode, for the encoding of the knee
  \<open>0.018\<close>; an exception of that call would leave the decoder too.
\<close>

definition cctf_decoding_RIMMRGB ::
  "real \<Rightarrow> int \<Rightarrow> bool \<Rightarrow> real \<Rightarrow> error + real" where
  "cctf_decoding_RIMMRGB X_p0 bit_depth in_int E_clip =
     (let X_p1 = to_domain_1 X_p0;
          I_max = I_max_of bit_depth;
          X_p = (if \<not> in_int then X_p1 * I_max else X_p1);
          V_clip = V_clip_of E_clip;
          m = V_clip * X_p / I_max
      in case cctf_encoding_RIMMRGB 0.018 bit_depth False E_clip of
           Inl e \<Rightarrow> Inl e
         | Inr knee \<Rightarrow>
             Inr (from_range_1
                    (if X_p / I_max < number_value knee then m / 4.5
                     else spow ((m + 0.099) / 1.099) (1 / 0.45))))"

definition log_encoding_ERIMMRGB ::
  "real \<Rightarrow> int \<Rightarrow> bool \<Rightarrow> real \<Rightarrow> real \<Rightarrow> error + number" where
  "log_encoding_ERIMMRGB X0 bit_depth out_int E_min E_clip =
     (let X = to_domain_1 X0;
          I_max = I_max_of bit_depth;
          E_t = exp 1 * E_min;
          l_E_t = ln E_t;
          l_E_min = ln E_min;
          l_E_clip = ln E_clip;
          X_p = np_select
                  [(X < 0.0, 0),
                   (X \<le> E_t, I_max * ((l_E_t - l_E_min) / (l_E_clip - l_E_min)) * X / E_t),
                   (X > E_t, I_max * ((ln X - l_E_min) / (l_E_clip - l_E_min))),
                   (X > E_clip, I_max)]
      in if out_int then int_code_value bit_depth X_p
         else Inr (FloatVal (from_range_1 (X_p / I_max))))"

definition log_decoding_ERIMMRGB ::
  "real \<Rightarrow> int \<Rightarrow> bool \<Rightarrow> real \<Rightarrow> real \<Rightarrow> real" where
  "log_decoding_ERIMMRGB X_p0 bit_depth in_int E_min E_clip =
     (let X_p1 = to_domain_1 X_p0;
          I_max = I_max_of bit_depth;
          X_p = (if \<not> in_int then X_p1 * I_max else X_p1);
          E_t = exp 1 * E_min;
          l_E_t = ln E_t;
          l_E_min = ln E_min;
          l_E_clip = ln E_clip;
          X = (if X_p \<le> I_max * ((l_E_t - l_E_min) / (l_E_clip - l_E_min))
               then ((l_E_clip - l_E_min) / (l_E_t - l_E_min)) * ((X_p * E_t) / I_max)
               else exp ((X_p / I_max) * (l_E_clip - l_E_min) + l_E_min))
      in from_range_1 X)"

section \<open>Python strings and number syntax\<close>

text \<open>
  Python strings are modelled as \<open>string\<close>. \<open>str.isspace\<close> on the ASCII range: tab, line
  feed, vertical tab, form feed, carriage return, the separators \<open>0x1c\<close> to \<open>0x1f\<close> and
  the space. Characters above the ASCII range are taken as non-space.
\<close>

abbreviation LF :: char where "LF \<equiv> CHR 0x0A"

abbreviation CR :: char where "CR \<equiv> CHR 0x0D"

definition is_space :: "char \<Rightarrow> bool" where
  "is_space c = (let n = (of_char c :: nat) in (9 \<le> n \<and> n \<le> 13) \<or> (28 \<le> n \<and> n \<le> 32))"

text \<open>\<open>str.strip()\<close>, \<open>str.startswith(prefix)\<close> and \<open>str.split()\<close>.\<close>

definition str_strip :: "string \<Rightarrow> string" where
  "str_strip s = rev (dropWhile is_space (rev (dropWhile is_space s)))"

definition startswith :: "string \<Rightarrow> string \<Rightarrow> bool" where
  "startswith s p = (take (length p) s = p)"

fun split_aux :: "string \<Rightarrow> string \<Rightarrow> string list" where
  "split_aux cur [] = (if cur = [] then [] else [cur])"
| "split_aux cur (c # cs) =
     (if is_space c then (if cur = [] then split_aux [] cs else cur # split_aux [] cs)
      else split_aux (cur @ [c]) cs)"

definition str_split :: "string \<Rightarrow> string list" where
  "str_split s = split_aux [] s"

text \<open>
  A file opened in text mode translates \<open>\r\n\<close> and a lone \<open>\r\<close> to \<open>\n\<close>;
  \<open>readlines()\<close> cuts the text after every \<open>\n\<close> and keeps the terminator.
\<close>

fun universal_newlines :: "string \<Rightarrow> string" where
  "universal_newlines [] = []"
| "universal_newlines [c] = (if c = CR then [LF] else [c])"
| "universal_newlines (c # c' # cs) =
     (if c = CR then (if c' = LF then LF # universal_newlines cs
                      else LF # universal_newlines (c' # cs))
      else c # universal_newlines (c' # cs))"

fun readlines_aux :: "string \<Rightarrow> string \<Rightarrow> string list" where
  "readlines_aux cur [] = (if cur = [] then [] else [cur])"
| "readlines_aux cur (c # cs) =
     (if c = LF then (cur @ [c]) # readlines_aux [] cs else readlines_aux (cur @ [c]) cs)"

definition readlines :: "string \<Rightarrow> string list" where
  "readlines text = readlines_aux [] (universal_newlines text)"

text \<open>Decimal digits, \<open>str(n)\<close> for a natural number and its inverse.\<close>

definition is_digit :: "char \<Rightarrow> bool" where
  "is_digit c = (let n = (of_char c :: nat) in 48 \<le> n \<and> n \<le> 57)"

definition digit_value :: "char \<Rightarrow> nat" where
  "digit_value c = of_char c - 48"

definition digit_char :: "nat \<Rightarrow> char" where
  "digit_char n = ''0123456789'' ! (n mod 10)"



definition nat_of_digits :: "string \<Rightarrow> nat" where
  "nat_of_digits s = foldl (\<lambda>a c. 10 * a + digit_value c) 0 s"

text \<open>
  Modelled from the spec: \<open>colour.utilities.as_float_array\<close> and
  \<open>colour.utilities.as_int_scalar\<close> are not among the sources. The spec gives the
  numbers of the format as plain fixed-point decimals, which is the syntax modelled
  here: an optional sign, digits, and an optional point followed by digits, with a
  digit on at least one side of the point. Exponents, \<open>inf\<close> and \<open>nan\<close>, which Python
  would also parse, are left out: such a token is a \<open>ValueError\<close> in the model.
\<close>

definition unsigned_float_of_string :: "string \<Rightarrow> real option" where
  "unsigned_float_of_string s =
     (let ip = takeWhile is_digit s; rest = dropWhile is_digit s
      in case rest of
           [] \<Rightarrow> if ip = [] then None else Some (real (nat_of_digits ip))
         | c # fp \<Rightarrow>
             if c = CHR ''.'' \<and> list_all is_digit fp \<and> (ip \<noteq> [] \<or> fp \<noteq> [])
             then Some (real (nat_of_digits ip) + real (nat_of_digits fp) / 10 ^ length fp)
             else None)"

definition float_of_string :: "string \<Rightarrow> real option" where
  "float_of_string s =
     (case s of
        [] \<Rightarrow> None
      | c # r \<Rightarrow>
          if c = CHR ''-'' then map_option uminus (unsigned_float_of_string r)
          else if c = CHR ''+'' then unsigned_float_of_string r
          else unsigned_float_of_string s)"

definition unsigned_int_of_string :: "string \<Rightarrow> int option" where
  "unsigned_int_of_string s =
     (if s \<noteq> [] \<and> list_all is_digit s then Some (int (nat_of_digits s)) else None)"

definition int_of_string :: "string \<Rightarrow> int option" where
  "int_of_string s =
     (case s of
        [] \<Rightarrow> None
      | c # r \<Rightarrow>
          if c = CHR ''-'' then map_option uminus (unsigned_int_of_string r)
          else if c = CHR ''+'' then unsigned_int_of_string r
          else unsigned_int_of_string s)"

definition as_float_array :: "string list \<Rightarrow> error + real list" where
  "as_float_array toks =
     (case those (map float_of_string toks) of
        None \<Rightarrow> Inl ValueError
      | Some vs \<Rightarrow> Inr vs)"

text \<open>A list of rows becomes a two-dimensional array only when the rows have one length.\<close>

fun as_float_rows :: "string list list \<Rightarrow> error + real list list" where
  "as_float_rows [] = Inr []"
| "as_float_rows (r # rs) =
     (case as_float_array r of
        Inl e \<Rightarrow> Inl e
      | Inr v \<Rightarrow> (case as_float_rows rs of
                    Inl e \<Rightarrow> Inl e
                  | Inr vs \<Rightarrow> Inr (v # vs)))"

definition as_float_array2 :: "string list list \<Rightarrow> error + real list list" where
  "as_float_array2 rows =
     (if list_all (\<lambda>r. length r = length (hd rows)) rows then as_float_rows rows
      else Inl ValueError)"

definition as_int_scalar :: "string \<Rightarrow> error + int" where
  "as_int_scalar tok = (case int_of_string tok of None \<Rightarrow> Inl ValueError | Some i \<Rightarrow> Inr i)"




section \<open>LUT value objects\<close>

text \<open>
  Modelled from the spec: the classes \<open>LUT1D\<close>, \<open>LUT3x1D\<close>, \<open>LUT3D\<close> and
  \<open>LUTSequence\<close> of \<open>colour.io.luts\<close> are not among the sources. A LUT carries a table,
  a name, a domain and comments. The table of a \<open>LUT1D\<close> is a sequence of samples and
  its domain a sequence of input values, implicit when it is the two-element interval;
  the table of a \<open>LUT3x1D\<close> is a sequence of triples and its domain a matrix, implicit
  when it has the shape 2 x 3. Construction validates the sample count (at least two),
  the row width and the domain ordering.
\<close>

record ('t, 'd) AbstractLUT =
  table :: 't
  name :: string
  domain :: 'd
  comments :: "string list"

type_synonym rgb = "real \<times> real \<times> real"

datatype LUT =
    LUT1D "(real list, real list) AbstractLUT"
  | LUT3x1D "(rgb list, real list list) AbstractLUT"
  | LUT3D "(rgb list list list, real list list) AbstractLUT"


datatype ndarray = Scalar real | Vector "real list" | Matrix "real list list"


fun domain_ordered :: "real list \<Rightarrow> bool" where
  "domain_ordered (a # b # _) = (a < b)"
| "domain_ordered _ = False"

definition LUT1D_init :: "ndarray \<Rightarrow> string \<Rightarrow> real list \<Rightarrow> string list \<Rightarrow> error + LUT" where
  "LUT1D_init tab title dmn cs =
     (case tab of
        Vector t \<Rightarrow>
          if 2 \<le> length t \<and> domain_ordered dmn
          then Inr (LUT1D \<lparr>table = t, name = title, domain = dmn, comments = cs\<rparr>)
          else Inl ValidationError
      | _ \<Rightarrow> Inl ValidationError)"

fun rgb_of_row :: "real list \<Rightarrow> rgb option" where
  "rgb_of_row [r, g, b] = Some (r, g, b)"
| "rgb_of_row _ = None"

fun matrix_domain_ordered :: "real list list \<Rightarrow> bool" where
  "matrix_domain_ordered [lo, hi] =
     (length lo = 3 \<and> length hi = 3 \<and> list_all (\<lambda>(a, b). a < b) (zip lo hi))"
| "matrix_domain_ordered _ = False"

definition LUT3x1D_init ::
  "real list list \<Rightarrow> string \<Rightarrow> real list list \<Rightarrow> string list \<Rightarrow> error + LUT" where
  "LUT3x1D_init tab title dmn cs =
     (case those (map rgb_of_row tab) of
        None \<Rightarrow> Inl ValidationError
      | Some rows \<Rightarrow>
          if 2 \<le> length rows \<and> matrix_domain_ordered dmn
          then Inr (LUT3x1D \<lparr>table = rows, name = title, domain = dmn, comments = cs\<rparr>)
          else Inl ValidationError)"

text \<open>
  \<open>numpy.squeeze\<close> on the array made from the rows: axes of length one are dropped.
  No rows give an empty vector.
\<close>

definition np_squeeze :: "real list list \<Rightarrow> ndarray" where
  "np_squeeze rows =
     (case rows of
        [] \<Rightarrow> Vector []
      | [r] \<Rightarrow> (case r of [x] \<Rightarrow> Scalar x | _ \<Rightarrow> Vector r)
      | _ \<Rightarrow> if list_all (\<lambda>r. length r = 1) rows then Vector (concat rows) else Matrix rows)"


section \<open>Sony .spi1d reader and writer\<close>

text \<open>
  The file system is a map from paths to file contents. Opening a missing file for
  reading fails; opening for writing always succeeds and replaces the content (other
  I/O failures are not modelled). \<open>path_to_title\<close>, which is not among the sources
  either, is a parameter of the reader.
\<close>

type_synonym filesystem = "string \<rightharpoonup> string"

record reader_state =
  domain_min :: real
  domain_max :: real
  dimensions :: nat
  data :: "string list list"
  comments_read :: "string list"

definition read_line :: "reader_state \<Rightarrow> string \<Rightarrow> error + reader_state" where
  "read_line st line =
     (if startswith line ''#''
      then Inr (st\<lparr>comments_read := comments_read st @ [str_strip (drop 1 line)]\<rparr>)
      else
        (case str_split line of
           [] \<Rightarrow> Inl IndexError
         | t0 # ts \<Rightarrow>
             if t0 = ''Version'' then Inr st
             else if t0 = ''From'' then
               (case as_float_array ts of
                  Inl e \<Rightarrow> Inl e
                | Inr vs \<Rightarrow>
                    (case vs of
                       [a, b] \<Rightarrow> Inr (st\<lparr>domain_min := a, domain_max := b\<rparr>)
                     | _ \<Rightarrow> Inl ValueError))
             else if t0 = ''Length'' then Inr st
             else if t0 = ''Components'' then
               (case ts of
                  [] \<Rightarrow> Inl IndexError
                | t1 # _ \<Rightarrow>
                    (case as_int_scalar t1 of
                       Inl e \<Rightarrow> Inl e
                     | Inr component \<Rightarrow>
                         if component = 1 \<or> component = 3
                         then Inr (st\<lparr>dimensions := (if component = 1 then 1 else 2)\<rparr>)
                         else Inl (AssertionError Only_1_or_3_components)))
             else if t0 = ''{'' \<or> t0 = ''}'' then Inr st
             else Inr (st\<lparr>data := data st @ [t0 # ts]\<rparr>)))"

fun read_lines :: "reader_state \<Rightarrow> string list \<Rightarrow> error + reader_state" where
  "read_lines st [] = Inr st"
| "read_lines st (l # ls) =
     (case read_line st l of Inl e \<Rightarrow> Inl e | Inr st' \<Rightarrow> read_lines st' ls)"

definition stripped_lines :: "string \<Rightarrow> string list" where
  "stripped_lines text = filter (\<lambda>l. l \<noteq> []) (map str_strip (readlines text))"

definition initial_state :: reader_state where
  "initial_state =
     \<lparr>domain_min = 0, domain_max = 1, dimensions = 1, data = [], comments_read = []\<rparr>"

definition build_LUT :: "string \<Rightarrow> reader_state \<Rightarrow> error + LUT" where
  "build_LUT title st =
     (case as_float_array2 (data st) of
        Inl e \<Rightarrow> Inl e
      | Inr tab \<Rightarrow>
          if dimensions st = 1
          then LUT1D_init (np_squeeze tab) title [domain_min st, domain_max st] (comments_read st)
          else if dimensions st = 2
          then LUT3x1D_init tab title
                 [[domain_min st, domain_min st, domain_min st],
                  [domain_max st, domain_max st, domain_max st]]
                 (comments_read st)
          else Inl UnboundLocalError)"

definition read_LUT_SonySPI1D ::
  "(string \<Rightarrow> string) \<Rightarrow> filesystem \<Rightarrow> string \<Rightarrow> error + LUT" where
  "read_LUT_SonySPI1D path_to_title fs path =
     (let title = path_to_title path
      in case fs path of
           None \<Rightarrow> Inl FileNotFoundError
         | Some text \<Rightarrow>
             (case read_lines initial_state (stripped_lines text) of
                Inl e \<Rightarrow> Inl e
              | Inr st \<Rightarrow> build_LUT title st))"









section \<open>Descriptions of a file's lines and example files\<close>

text \<open>
  What the lines of a file are, said without the reader's loop: a keyword line is a line
  that is not a comment and whose first token is the keyword; a data line is a line that
  is neither a comment nor a keyword or brace line. These are used to state what the
  reader returns.
\<close>

definition minimal_spi1d :: string where
  "minimal_spi1d =
     ''Version 1\<newline>From -0.1 1.5\<newline>Length 2\<newline>Components 1\<newline>{\<newline> 0.0\<newline> 1.0\<newline>}\<newline># test\<newline>''"








section \<open>Descriptions of the written text\<close>










section \<open>Facts about the transfer functions\<close>

lemma I_max_of_nonneg_depth: "0 \<le> b \<Longrightarrow> I_max_of b = 2 ^ nat b - 1"
proof -
  assume b: "0 \<le> b"
  have "(2::real) powr (of_int b) = 2 powr (real (nat b))"
    using b by simp
  also have "\<dots> = 2 ^ nat b"
    by (simp add: powr_realpow)
  finally show ?thesis
    by (simp add: I_max_of_def)
qed

lemma I_max_of_pos: "0 < b \<Longrightarrow> 1 \<le> I_max_of b"
proof -
  assume b: "0 < b"
  have "(2::real) powr 1 \<le> 2 powr (of_int b)"
    using b by (intro powr_mono) auto
  then show ?thesis
    by (simp add: I_max_of_def)
qed

lemma I_max_of_8: "I_max_of 8 = 255"
  by (simp add: I_max_of_nonneg_depth)

lemma ROMM_E_t: "(16::real) powr (- (9 / 4)) = 1 / 512"
proof -
  have "(16::real) = 2 powr 4" by simp
  then have "(16::real) powr (- (9 / 4)) = (2 powr 4) powr (- (9 / 4))" by simp
  also have "\<dots> = 2 powr (- 9)" by (simp only: powr_powr) simp
  also have "\<dots> = 1 / 512" by (simp add: powr_minus divide_simps)
  finally show ?thesis .
qed

lemma np_round_bounds: "\<bar>of_int (np_round x) - x\<bar> \<le> 1 / 2"
  unfolding np_round_def Let_def by (auto simp: abs_if; linarith)

lemma np_round_floor: "\<lfloor>x\<rfloor> \<le> np_round x \<and> np_round x \<le> \<lfloor>x\<rfloor> + 1"
  unfolding np_round_def Let_def by auto

lemma np_round_mono: "x \<le> y \<Longrightarrow> np_round x \<le> np_round y"
proof -
  assume xy: "x \<le> y"
  have fg: "\<lfloor>x\<rfloor> \<le> \<lfloor>y\<rfloor>" using xy by (rule floor_mono)
  show ?thesis
  proof (cases "\<lfloor>x\<rfloor> = \<lfloor>y\<rfloor>")
    case True
    then show ?thesis using xy
      unfolding np_round_def Let_def by (auto split: if_splits)
  next
    case False
    then have "\<lfloor>x\<rfloor> + 1 \<le> \<lfloor>y\<rfloor>" using fg by linarith
    then show ?thesis
      using np_round_floor [of x] np_round_floor [of y] by linarith
  qed
qed

lemma np_round_of_int: "np_round (of_int i) = i"
  unfolding np_round_def Let_def by simp

lemma np_round_eqI: "of_int n - 1 / 2 < x \<Longrightarrow> x < of_int n + 1 / 2 \<Longrightarrow> np_round x = n"
  using np_round_bounds [of x] by (auto simp: abs_if split: if_splits)

lemma spow_nonneg: "0 \<le> a \<Longrightarrow> spow a p = a powr p"
  by (cases "a = 0") (simp_all add: spow_def)

lemma np_round_0: "np_round 0 = 0"
  using np_round_of_int [of 0] by simp

lemma np_round_nonneg: "0 \<le> x \<Longrightarrow> 0 \<le> np_round x"
  using np_round_mono [of 0 x] np_round_of_int [of 0] by simp

lemma np_round_le_int: "x \<le> of_int M \<Longrightarrow> np_round x \<le> M"
  using np_round_mono [of x "of_int M"] by (simp add: np_round_of_int)

lemma as_int_id: "- (2 ^ 63) \<le> i \<Longrightarrow> i < 2 ^ 63 \<Longrightarrow> as_int i = i"
  by (simp add: as_int_def)

lemma as_int_mono: "i \<le> j \<Longrightarrow> j < 2 ^ 63 \<Longrightarrow> as_int i \<le> as_int j"
  by (simp add: as_int_def)

lemma int_code_value_Inr:
  "b \<le> 64 \<Longrightarrow> int_code_value b x = Inr (IntCode (as_int (np_round x)))"
  by (simp add: int_code_value_def)

lemma int_code_value_in_range:
  assumes "b \<le> 64" and "np_round x = n" and "- (2 ^ 63) \<le> n" and "n < 2 ^ 63"
  shows "int_code_value b x = Inr (IntCode n)"
  using assms by (simp add: int_code_value_def as_int_id)

lemma ROMM_X_p:
  "cctf_encoding_ROMMRGB X b out =
     (if out then int_code_value b (if X < 1 / 512 then X * 16 * I_max_of b else spow X (5 / 9) * I_max_of b)
      else Inr (FloatVal ((if X < 1 / 512 then X * 16 * I_max_of b else spow X (5 / 9) * I_max_of b) / I_max_of b)))"
proof -
  have "(1::real) / 1.8 = 5 / 9" by simp
  then show ?thesis
    by (simp add: cctf_encoding_ROMMRGB_def to_domain_1_def from_range_1_def ROMM_E_t Let_def)
qed

lemma RIMM_X_p:
  "cctf_encoding_RIMMRGB X b out E_clip =
     (if out then int_code_value b (I_max_of b / V_clip_of E_clip *
          (if X < 0 then 0 else if X < 0.018 then 4.5 * X else 1.099 * spow X 0.45 - 0.099))
      else Inr (FloatVal (I_max_of b / V_clip_of E_clip *
          (if X < 0 then 0 else if X < 0.018 then 4.5 * X else 1.099 * spow X 0.45 - 0.099) / I_max_of b)))"
  by (simp add: cctf_encoding_RIMMRGB_def to_domain_1_def from_range_1_def Let_def)

lemma ERIMM_X_p:
  "log_encoding_ERIMMRGB X b out E_min E_clip =
     (if out then int_code_value b
          (if X < 0 then 0 else if X \<le> exp 1 * E_min
           then I_max_of b * ((ln (exp 1 * E_min) - ln E_min) / (ln E_clip - ln E_min)) * X / (exp 1 * E_min)
           else I_max_of b * ((ln X - ln E_min) / (ln E_clip - ln E_min)))
      else Inr (FloatVal (
          (if X < 0 then 0 else if X \<le> exp 1 * E_min
           then I_max_of b * ((ln (exp 1 * E_min) - ln E_min) / (ln E_clip - ln E_min)) * X / (exp 1 * E_min)
           else I_max_of b * ((ln X - ln E_min) / (ln E_clip - ln E_min))) / I_max_of b)))"
  by (simp add: log_encoding_ERIMMRGB_def to_domain_1_def from_range_1_def Let_def)

text \<open>
  Claim C3, as stated, asks for \<open>0\<close> from all three encoders at every \<open>X \<le> 0\<close>.
  The ROMM encoder has no clamp: a negative input stays on the linear segment, so that
  \<open>-0.1\<close> at bit depth 8 gives \<open>-1.6\<close> in float mode and the code value \<open>-408\<close>.
\<close>

theorem ROMM_negative_input_not_zero:
  "(- 0.1 :: real) \<le> 0 \<and> cctf_encoding_ROMMRGB (- 0.1) 8 False = Inr (FloatVal (- 1.6))
   \<and> cctf_encoding_ROMMRGB (- 0.1) 8 True = Inr (IntCode (- 408))"
proof -
  have "np_round (- 408) = - 408" using np_round_of_int [of "- 408"] by simp
  then have "int_code_value 8 (- 408) = Inr (IntCode (- 408))"
    by (intro int_code_value_in_range) simp_all
  then show ?thesis
    by (simp add: ROMM_X_p I_max_of_8)
qed

text \<open>
  Claim C3, amended: at every \<open>X \<le> 0\<close> and every bit depth from 1 to 64 the RIMM and
  ERIMM encoders return \<open>0\<close> in both output modes (for parameters that keep the formulas
  defined: a non-zero \<open>V_clip\<close>, and \<open>0 < E_min < E_clip\<close>), while the ROMM encoder
  returns the value of its linear segment: \<open>16 * X\<close> in float mode, and in integer mode
  \<open>16 * X * I_max\<close> rounded and cast to \<open>int64\<close>.
\<close>

theorem encode_nonpositive_input:
  assumes "0 < bit_depth" and "bit_depth \<le> 64" and "X \<le> 0"
    and "V_clip_of E_clip \<noteq> 0" and "0 < E_min" and "E_min < E_clip'"
  shows "cctf_encoding_RIMMRGB X bit_depth False E_clip = Inr (FloatVal 0)
       \<and> cctf_encoding_RIMMRGB X bit_depth True E_clip = Inr (IntCode 0)
       \<and> log_encoding_ERIMMRGB X bit_depth False E_min E_clip' = Inr (FloatVal 0)
       \<and> log_encoding_ERIMMRGB X bit_depth True E_min E_clip' = Inr (IntCode 0)
       \<and> cctf_encoding_ROMMRGB X bit_depth False = Inr (FloatVal (16 * X))
       \<and> cctf_encoding_ROMMRGB X bit_depth True
           = Inr (IntCode (as_int (np_round (16 * X * I_max_of bit_depth))))"
proof -
  have I: "I_max_of bit_depth \<noteq> 0" using I_max_of_pos [OF assms(1)] by simp
  have z: "int_code_value bit_depth 0 = Inr (IntCode 0)"
    using assms(2) by (intro int_code_value_in_range) (simp_all add: np_round_0)
  note c = int_code_value_Inr [OF assms(2)]
  show ?thesis
  proof (cases "X = 0")
    case True
    then show ?thesis using I assms(5) z
      by (simp add: RIMM_X_p ERIMM_X_p ROMM_X_p c np_round_0 as_int_id)
  next
    case False
    then have "X < 0" using assms(3) by simp
    then show ?thesis using I z
      by (simp add: RIMM_X_p ERIMM_X_p ROMM_X_p c mult.commute)
  qed
qed

theorem encode_nonpositive_input_witness:
  "cctf_encoding_RIMMRGB (- 1) 8 False 2 = Inr (FloatVal 0)
   \<and> cctf_encoding_RIMMRGB (- 1) 8 True 2 = Inr (IntCode 0)
   \<and> log_encoding_ERIMMRGB (- 1) 8 False 0.001 316.2 = Inr (FloatVal 0)
   \<and> log_encoding_ERIMMRGB (- 1) 8 True 0.001 316.2 = Inr (IntCode 0)
   \<and> cctf_encoding_ROMMRGB (- 1) 8 False = Inr (FloatVal (16 * (- 1)))
   \<and> cctf_encoding_ROMMRGB (- 1) 8 True = Inr (IntCode (as_int (np_round (16 * (- 1) * I_max_of 8))))"
proof -
  have "(1::real) \<le> 2 powr 0.45" by (rule ge_one_powr_ge_zero) simp_all
  then have V: "V_clip_of 2 \<noteq> 0" by (simp add: V_clip_of_def spow_def)
  show ?thesis
    using encode_nonpositive_input [of 8 "- 1" 2 "0.001" "316.2"] V by simp
qed

lemma ROMM_knee: "(1 / 512 :: real) powr (5 / 9) = 1 / 32"
proof -
  have "(1 / 512 :: real) = 2 powr (- 9)" by (simp add: powr_minus divide_simps)
  then have "(1 / 512 :: real) powr (5 / 9) = (2 powr (- 9)) powr (5 / 9)"
    by (rule arg_cong)
  also have "\<dots> = 2 powr (- 5)" by (simp only: powr_powr) simp
  also have "\<dots> = 1 / 32" by (simp add: powr_minus divide_simps)
  finally show ?thesis .
qed

lemma ROMM_core_mono:
  assumes "X1 \<le> X2" and "0 \<le> I"
  shows "(if X1 < 1 / 512 then X1 * 16 * I else spow X1 (5 / 9) * I)
       \<le> (if X2 < 1 / 512 then X2 * 16 * I else spow X2 (5 / 9) * I)"
proof (cases "X2 < 1 / 512")
  case True
  then have "X1 < 1 / 512" using assms(1) by simp
  then show ?thesis using True assms by (simp add: mult_right_mono)
next
  case hi: False
  then have X2: "1 / 512 \<le> X2" by simp
  have k: "1 / 32 \<le> X2 powr (5 / 9)"
    using powr_mono2 [of "5 / 9" "1 / 512" X2] X2 by (simp add: ROMM_knee)
  show ?thesis
  proof (cases "X1 < 1 / 512")
    case True
    then have "X1 * 16 \<le> X2 powr (5 / 9)" using k by simp
    then have "X1 * 16 * I \<le> X2 powr (5 / 9) * I"
      using assms(2) by (rule mult_right_mono)
    then show ?thesis using True hi X2 by (simp add: spow_nonneg)
  next
    case False
    then have "X1 powr (5 / 9) \<le> X2 powr (5 / 9)"
      using assms(1) by (intro powr_mono2) auto
    then have "X1 powr (5 / 9) * I \<le> X2 powr (5 / 9) * I"
      using assms(2) by (rule mult_right_mono)
    then show ?thesis using False hi X2 by (simp add: spow_nonneg)
  qed
qed

lemma powr_ge_from_power:
  fixes a x :: real
  assumes "0 \<le> a" and x: "0 < x" and "0 < n" and "a ^ n \<le> x ^ m"
  shows "a \<le> x powr (real m / real n)"
proof -
  have "a = (a ^ n) powr (1 / real n)"
    using assms(1,3) by (simp add: powr_realpow' [symmetric] powr_powr)
  also have "\<dots> \<le> (x ^ m) powr (1 / real n)"
    using assms by (intro powr_mono2) auto
  also have "\<dots> = x powr (real m / real n)"
    using x by (simp add: powr_realpow [symmetric] powr_powr)
  finally show ?thesis .
qed

lemma powr_le_from_power:
  fixes a x :: real
  assumes "0 \<le> a" and "0 < x" and "0 < n" and "x ^ m \<le> a ^ n"
  shows "x powr (real m / real n) \<le> a"
proof -
  have "x powr (real m / real n) = (x ^ m) powr (1 / real n)"
    using assms(2) by (simp add: powr_realpow [symmetric] powr_powr)
  also have "\<dots> \<le> (a ^ n) powr (1 / real n)"
    using assms by (intro powr_mono2) auto
  also have "\<dots> = a"
    using assms(1,3) by (simp add: powr_realpow' [symmetric] powr_powr)
  finally show ?thesis .
qed

lemma RIMM_knee: "(0.081::real) \<le> 1.099 * 0.018 powr 0.45 - 0.099"
proof -
  have "(180 / 1099 :: real) \<le> 0.018 powr (real 9 / real 20)"
    by (rule powr_ge_from_power) (simp_all add: power_divide divide_simps)
  then show ?thesis by simp
qed


lemma RIMM_core_mono:
  assumes "X1 \<le> X2"
  shows "(if X1 < 0 then 0 else if X1 < 0.018 then 4.5 * X1 else 1.099 * spow X1 0.45 - 0.099)
       \<le> (if X2 < 0 then 0 else if X2 < 0.018 then 4.5 * X2 else 1.099 * spow X2 0.45 - 0.099 :: real)"
proof (cases "X2 < 0.018")
  case True
  then show ?thesis using assms by auto
next
  case hi: False
  then have X2: "0.018 \<le> X2" by simp
  have k: "0.018 powr 0.45 \<le> X2 powr 0.45"
    using X2 by (intro powr_mono2) auto
  show ?thesis
  proof (cases "X1 < 0.018")
    case True
    then have "(if X1 < 0 then 0 else 4.5 * X1) \<le> (0.081::real)" by auto
    also have "\<dots> \<le> 1.099 * X2 powr 0.45 - 0.099"
      using RIMM_knee k by simp
    finally show ?thesis using True hi X2 by (auto simp: spow_nonneg split: if_splits)
  next
    case False
    then have "X1 powr 0.45 \<le> X2 powr 0.45"
      using assms by (intro powr_mono2) auto
    then show ?thesis using False hi X2 by (simp add: spow_nonneg)
  qed
qed

lemma ERIMM_l_E_t: "0 < (E_min::real) \<Longrightarrow> ln (exp 1 * E_min) - ln E_min = 1"
  by (simp add: ln_mult)

lemma ERIMM_core_mono:
  fixes X1 X2 I E_min E_clip :: real
  assumes "X1 \<le> X2" and "0 \<le> I" and "0 < E_min" and "E_min < E_clip"
  shows "(if X1 < 0 then 0 else if X1 \<le> exp 1 * E_min
           then I * ((ln (exp 1 * E_min) - ln E_min) / (ln E_clip - ln E_min)) * X1 / (exp 1 * E_min)
           else I * ((ln X1 - ln E_min) / (ln E_clip - ln E_min)))
       \<le> (if X2 < 0 then 0 else if X2 \<le> exp 1 * E_min
           then I * ((ln (exp 1 * E_min) - ln E_min) / (ln E_clip - ln E_min)) * X2 / (exp 1 * E_min)
           else I * ((ln X2 - ln E_min) / (ln E_clip - ln E_min)))"
proof -
  define L where "L = ln E_clip - ln E_min"
  define E_t where "E_t = exp 1 * E_min"
  have L: "0 < L" using assms(3,4) by (simp add: L_def)
  have E_t: "0 < E_t" using assms(3) by (simp add: E_t_def)
  have lt: "ln E_t - ln E_min = 1" using ERIMM_l_E_t [OF assms(3)] by (simp add: E_t_def)
  have lin: "0 \<le> x \<Longrightarrow> x \<le> y \<Longrightarrow> I * (1 / L) * x / E_t \<le> I * (1 / L) * y / E_t" for x y
    using assms(2) L E_t by (intro divide_right_mono mult_left_mono) auto
  have lin0: "0 \<le> y \<Longrightarrow> 0 \<le> I * (1 / L) * y / E_t" for y
    using assms(2) L E_t by simp
  have lg: "E_t \<le> x \<Longrightarrow> x \<le> y \<Longrightarrow> I * ((ln x - ln E_min) / L) \<le> I * ((ln y - ln E_min) / L)" for x y
    using assms(2) L E_t by (intro mult_left_mono divide_right_mono) auto
  have knee: "I * (1 / L) * E_t / E_t = I * ((ln E_t - ln E_min) / L)"
    using E_t lt by simp
  have mix: "I * (1 / L) * x / E_t \<le> I * ((ln y - ln E_min) / L)"
    if "0 \<le> x" "x \<le> E_t" "E_t < y" for x y
  proof -
    have "I * (1 / L) * x / E_t \<le> I * (1 / L) * E_t / E_t" using that by (intro lin) auto
    also have "\<dots> = I * ((ln E_t - ln E_min) / L)" by (rule knee)
    also have "\<dots> \<le> I * ((ln y - ln E_min) / L)" using that by (intro lg) auto
    finally show ?thesis .
  qed
  have pos: "0 \<le> I * ((ln y - ln E_min) / L)" if "E_t < y" for y
  proof -
    have "0 \<le> I * ((ln E_t - ln E_min) / L)" using lt L assms(2) by simp
    also have "\<dots> \<le> I * ((ln y - ln E_min) / L)" using that by (intro lg) auto
    finally show ?thesis .
  qed
  show ?thesis
    unfolding L_def [symmetric] E_t_def [symmetric] lt
    using assms(1) lin lin0 lg mix pos by (auto simp: not_le not_less)
qed


lemma I_max_of_int: "0 \<le> b \<Longrightarrow> I_max_of b = of_int (2 ^ nat b - 1)"
  by (simp add: I_max_of_nonneg_depth)

lemma code_range: "b \<le> 62 \<Longrightarrow> (2::int) ^ nat b - 1 < 2 ^ 63"
proof -
  assume "b \<le> 62"
  then have "nat b \<le> 63" by simp
  then have "(2::int) ^ nat b \<le> 2 ^ 63" by (intro power_increasing) simp_all
  then show ?thesis by simp
qed

lemma result_le_encoded:
  assumes "a \<le> b" and "0 < I" and "bd \<le> 64" and "b \<le> of_int M" and "M < 2 ^ 63"
  shows "result_le (if out then int_code_value bd a else Inr (FloatVal (a / I)))
                   (if out then int_code_value bd b else Inr (FloatVal (b / I)))"
proof -
  have "np_round b \<le> M" using assms(4) by (rule np_round_le_int)
  then have "np_round b < 2 ^ 63" using assms(5) by simp
  then have "as_int (np_round a) \<le> as_int (np_round b)"
    using np_round_mono [OF assms(1)] by (intro as_int_mono)
  then show ?thesis
    using assms(1,2) by (simp add: int_code_value_Inr [OF assms(3)] divide_right_mono)
qed

lemma spow_one: "spow 1 p = 1"
  by (simp add: spow_def)

text \<open>
  Claim C5, as stated, holds at any fixed bit depth. At bit depth 64 the code value of
  \<open>1.0\<close> is \<open>2\<^sup>6\<^sup>4 - 1\<close>, which \<open>int64\<close> does not hold: the ROMM encoder returns
  \<open>-2\<^sup>6\<^sup>3\<close> for \<open>1.0\<close> and a non-negative code value for \<open>0.1\<close>.
\<close>

theorem ROMM_order_fails_at_bit_depth_64:
  "(0.1::real) \<le> 1
   \<and> cctf_encoding_ROMMRGB 1 64 True = Inr (IntCode (- 9223372036854775808))
   \<and> result_le (Inr (IntCode 0)) (cctf_encoding_ROMMRGB 0.1 64 True)
   \<and> \<not> result_le (cctf_encoding_ROMMRGB 0.1 64 True) (cctf_encoding_ROMMRGB 1 64 True)"
proof -
  have I: "I_max_of 64 = 18446744073709551615" by (simp add: I_max_of_nonneg_depth)
  have "np_round (of_int 18446744073709551615) = 18446744073709551615"
    by (rule np_round_of_int)
  then have "np_round 18446744073709551615 = 18446744073709551615" by simp
  then have one: "cctf_encoding_ROMMRGB 1 64 True = Inr (IntCode (- 9223372036854775808))"
    by (simp add: ROMM_X_p I spow_one int_code_value_def as_int_def)
  define A :: real where "A = 0.1 powr (5 / 9) * 18446744073709551615"
  have "(0.1::real) powr (real 5 / real 9) \<le> 0.3"
    by (rule powr_le_from_power) (simp_all add: power_divide divide_simps)
  then have p: "(0.1::real) powr (5 / 9) \<le> 0.3" by simp
  have "A \<le> 0.3 * 18446744073709551615" unfolding A_def using p by simp
  also have "\<dots> \<le> of_int 5534023222112865485" by simp
  finally have "np_round A \<le> 5534023222112865485" by (rule np_round_le_int)
  moreover have "0 \<le> A" by (simp add: A_def)
  then have "0 \<le> np_round A" by (rule np_round_nonneg)
  ultimately have n: "as_int (np_round A) = np_round A" "0 \<le> np_round A"
    by (simp_all add: as_int_def)
  have tenth: "cctf_encoding_ROMMRGB 0.1 64 True = Inr (IntCode (np_round A))"
    by (simp add: ROMM_X_p I spow_nonneg int_code_value_def n(1) [unfolded A_def] A_def)
  show ?thesis
    unfolding one tenth using n(2) by simp
qed

text \<open>
  Claim C5, amended: at every bit depth from 1 to 62 and in either output mode, each
  encoder returns and is non-decreasing up to the top of its range: the ROMM encoder
  for \<open>X1 \<le> X2 \<le> 1\<close>, the RIMM encoder for \<open>X1 \<le> X2 \<le> E_clip\<close> (with
  \<open>E_clip \<ge> 0.018\<close>) and the ERIMM encoder for \<open>X1 \<le> X2 \<le> E_clip\<close> (with
  \<open>0 < E_min\<close> and \<open>e * E_min < E_clip\<close>).
\<close>

theorem encode_monotone:
  assumes "0 < bit_depth" and "bit_depth \<le> 62"
    and "X1 \<le> X2" and "X2 \<le> 1"
    and "Y1 \<le> Y2" and "Y2 \<le> E_clip" and "0.018 \<le> E_clip"
    and "Z1 \<le> Z2" and "Z2 \<le> E_clip'" and "0 < E_min" and "exp 1 * E_min < E_clip'"
  shows "result_le (cctf_encoding_ROMMRGB X1 bit_depth out_int)
                   (cctf_encoding_ROMMRGB X2 bit_depth out_int)
       \<and> result_le (cctf_encoding_RIMMRGB Y1 bit_depth out_int E_clip)
                   (cctf_encoding_RIMMRGB Y2 bit_depth out_int E_clip)
       \<and> result_le (log_encoding_ERIMMRGB Z1 bit_depth out_int E_min E_clip')
                   (log_encoding_ERIMMRGB Z2 bit_depth out_int E_min E_clip')"
proof -
  define M :: int where "M = 2 ^ nat bit_depth - 1"
  have I: "0 < I_max_of bit_depth" using I_max_of_pos [OF assms(1)] by simp
  then have I0: "0 \<le> I_max_of bit_depth" by simp
  have IM: "I_max_of bit_depth = of_int M"
    using assms(1) by (simp add: M_def I_max_of_int)
  have M: "M < 2 ^ 63" unfolding M_def using assms(2) by (rule code_range)
  have b: "bit_depth \<le> 64" using assms(2) by simp
  have romm: "result_le (cctf_encoding_ROMMRGB X1 bit_depth out_int)
                        (cctf_encoding_ROMMRGB X2 bit_depth out_int)"
  proof -
    have "(if X2 < 1 / 512 then X2 * 16 * I_max_of bit_depth else spow X2 (5 / 9) * I_max_of bit_depth)
        \<le> of_int M"
      using ROMM_core_mono [OF assms(4) I0] by (simp add: spow_one IM)
    then show ?thesis
      unfolding ROMM_X_p by (intro result_le_encoded [OF ROMM_core_mono [OF assms(3) I0] I b _ M])
  qed
  have rimm: "result_le (cctf_encoding_RIMMRGB Y1 bit_depth out_int E_clip)
                        (cctf_encoding_RIMMRGB Y2 bit_depth out_int E_clip)"
  proof -
    define V where "V = V_clip_of E_clip"
    have E: "0 \<le> E_clip" "\<not> E_clip < 0.018" using assms(7) by auto
    have "0.018 powr 0.45 \<le> E_clip powr 0.45" using assms(7) by (intro powr_mono2) auto
    then have V: "0 < V" using RIMM_knee by (simp add: V_def V_clip_of_def spow_nonneg E(1))
    then have q: "0 \<le> I_max_of bit_depth / V" using I0 by simp
    have "(if Y2 < 0 then 0 else if Y2 < 0.018 then 4.5 * Y2 else 1.099 * spow Y2 0.45 - 0.099) \<le> V"
      using RIMM_core_mono [OF assms(6)] E by (simp add: V_def V_clip_of_def)
    then have "I_max_of bit_depth / V
          * (if Y2 < 0 then 0 else if Y2 < 0.018 then 4.5 * Y2 else 1.099 * spow Y2 0.45 - 0.099)
        \<le> I_max_of bit_depth / V * V"
      using q by (rule mult_left_mono)
    also have "\<dots> = of_int M" using V by (simp add: IM)
    finally show ?thesis
      unfolding RIMM_X_p V_def [symmetric]
      by (intro result_le_encoded [OF mult_left_mono [OF RIMM_core_mono [OF assms(5)] q] I b _ M])
  qed
  have erimm: "result_le (log_encoding_ERIMMRGB Z1 bit_depth out_int E_min E_clip')
                         (log_encoding_ERIMMRGB Z2 bit_depth out_int E_min E_clip')"
  proof -
    have "1 * E_min < exp 1 * E_min" using assms(10) by (intro mult_strict_right_mono) simp_all
    then have mc: "E_min < E_clip'" using assms(11) by simp
    then have L: "ln E_clip' - ln E_min \<noteq> 0" using assms(10) by simp
    have c: "\<not> E_clip' < 0" "\<not> E_clip' \<le> exp 1 * E_min" using assms(10,11) mc by auto
    have "(if Z2 < 0 then 0 else if Z2 \<le> exp 1 * E_min
           then I_max_of bit_depth * ((ln (exp 1 * E_min) - ln E_min) / (ln E_clip' - ln E_min)) * Z2 / (exp 1 * E_min)
           else I_max_of bit_depth * ((ln Z2 - ln E_min) / (ln E_clip' - ln E_min)))
        \<le> of_int M"
      using ERIMM_core_mono [OF assms(9) I0 assms(10) mc] c L by (simp add: IM)
    then show ?thesis
      unfolding ERIMM_X_p
      by (intro result_le_encoded [OF ERIMM_core_mono [OF assms(8) I0 assms(10) mc] I b _ M])
  qed
  show ?thesis using romm rimm erimm by simp
qed

lemma V_clip_2_pos: "0 < V_clip_of 2"
proof -
  have "(1::real) \<le> 2 powr 0.45" by (rule ge_one_powr_ge_zero) simp_all
  then show ?thesis by (simp add: V_clip_of_def spow_nonneg)
qed

theorem encode_monotone_witness:
  "result_le (cctf_encoding_ROMMRGB 0 8 True) (cctf_encoding_ROMMRGB 1 8 True)
   \<and> result_le (cctf_encoding_RIMMRGB 0 8 True 2) (cctf_encoding_RIMMRGB 2 8 True 2)
   \<and> result_le (log_encoding_ERIMMRGB 0 8 True 0.001 316.2)
               (log_encoding_ERIMMRGB 316.2 8 True 0.001 316.2)"
proof -
  have "exp 1 * (0.001::real) \<le> 3 * 0.001" using exp_le by simp
  then have e: "exp 1 * (0.001::real) < 316.2" by simp
  show ?thesis
    using encode_monotone [of 8 0 1 0 2 2 0 "316.2" "316.2" "0.001" True] e by simp
qed
lemma ROMM_decode_float:
  assumes "0 < b"
  shows "cctf_decoding_ROMMRGB y b False = (if y < 1 / 32 then y / 16 else spow y (9 / 5))"
proof -
  have I: "0 < I_max_of b" using I_max_of_pos [OF assms] by simp
  have "(1.8::real) / (1 - 1.8) = - (9 / 4)" by simp
  moreover have "(y * I_max_of b < I_max_of b / 32) = (y < 1 / 32)"
    using I by (simp add: field_simps)
  ultimately show ?thesis using I
    by (simp add: cctf_decoding_ROMMRGB_def to_domain_1_def from_range_1_def ROMM_E_t Let_def)
qed

lemma decode_int_as_float:
  assumes "0 < b"
  shows "cctf_decoding_ROMMRGB c b True = cctf_decoding_ROMMRGB (c / I_max_of b) b False"
    and "cctf_decoding_RIMMRGB c b True E_clip = cctf_decoding_RIMMRGB (c / I_max_of b) b False E_clip"
    and "log_decoding_ERIMMRGB c b True E_min E_clip' = log_decoding_ERIMMRGB (c / I_max_of b) b False E_min E_clip'"
proof -
  have I: "I_max_of b \<noteq> 0" using I_max_of_pos [OF assms] by simp
  show "cctf_decoding_ROMMRGB c b True = cctf_decoding_ROMMRGB (c / I_max_of b) b False"
    using I by (simp add: cctf_decoding_ROMMRGB_def to_domain_1_def Let_def)
  show "cctf_decoding_RIMMRGB c b True E_clip = cctf_decoding_RIMMRGB (c / I_max_of b) b False E_clip"
    using I by (simp add: cctf_decoding_RIMMRGB_def to_domain_1_def Let_def split: sum.splits)
  show "log_decoding_ERIMMRGB c b True E_min E_clip' = log_decoding_ERIMMRGB (c / I_max_of b) b False E_min E_clip'"
    using I by (simp add: log_decoding_ERIMMRGB_def to_domain_1_def Let_def)
qed

lemma ROMM_float:
  assumes "0 < b"
  shows "cctf_encoding_ROMMRGB X b False
           = Inr (FloatVal (if X < 1 / 512 then X * 16 else spow X (5 / 9)))"
proof -
  have I: "I_max_of b \<noteq> 0" using I_max_of_pos [OF assms] by simp
  show ?thesis using I by (simp add: ROMM_X_p)
qed

lemma ROMM_roundtrip_float:
  assumes "0 < b" and "0 \<le> X"
  shows "cctf_decoding_ROMMRGB (if X < 1 / 512 then X * 16 else spow X (5 / 9)) b False = X"
proof (cases "X < 1 / 512")
  case True
  then show ?thesis by (simp add: ROMM_decode_float [OF assms(1)])
next
  case False
  then have "(1 / 512) powr (5 / 9) \<le> X powr (5 / 9)"
    by (intro powr_mono2) auto
  then have k: "\<not> X powr (5 / 9) < 1 / 32" by (simp add: ROMM_knee)
  have "(X powr (5 / 9)) powr (9 / 5) = X"
    using assms(2) by (simp add: powr_powr)
  then show ?thesis using False k assms(2)
    by (simp add: ROMM_decode_float [OF assms(1)] spow_nonneg)
qed

lemma RIMM_float:
  assumes "0 < b"
  shows "cctf_encoding_RIMMRGB X b False E_clip
           = Inr (FloatVal ((if X < 0 then 0 else if X < 0.018 then 4.5 * X
                             else 1.099 * spow X 0.45 - 0.099) / V_clip_of E_clip))"
proof -
  have I: "I_max_of b \<noteq> 0" using I_max_of_pos [OF assms] by simp
  show ?thesis using I by (simp add: RIMM_X_p)
qed

lemma RIMM_decode_float:
  assumes "0 < b"
  shows "cctf_decoding_RIMMRGB y b False E_clip
           = Inr (if y < (1.099 * 0.018 powr 0.45 - 0.099) / V_clip_of E_clip
                  then V_clip_of E_clip * y / 4.5
                  else spow ((V_clip_of E_clip * y + 0.099) / 1.099) (20 / 9))"
proof -
  have I: "I_max_of b \<noteq> 0" using I_max_of_pos [OF assms] by simp
  have e: "(1::real) / 0.45 = 20 / 9" by simp
  show ?thesis
    unfolding cctf_decoding_RIMMRGB_def to_domain_1_def from_range_1_def Let_def
      RIMM_float [OF assms] e
    using I by (simp add: spow_nonneg)
qed

lemma RIMM_roundtrip_float:
  assumes "0 < b" and "0 \<le> X" and V: "0 < V_clip_of E_clip"
  shows "cctf_decoding_RIMMRGB
           ((if X < 0 then 0 else if X < 0.018 then 4.5 * X else 1.099 * spow X 0.45 - 0.099)
              / V_clip_of E_clip) b False E_clip = Inr X"
proof -
  define V where "V = V_clip_of E_clip"
  have Vp: "0 < V" using V by (simp add: V_def)
  define k :: real where "k = 1.099 * 0.018 powr 0.45 - 0.099"
  have k: "0.081 \<le> k" using RIMM_knee by (simp add: k_def)
  note dec = RIMM_decode_float [OF assms(1), of _ E_clip, folded V_def k_def]
  show ?thesis
  proof (cases "X < 0.018")
    case True
    then have "4.5 * X < k" using k by simp
    then have "4.5 * X / V < k / V" using Vp by (rule divide_strict_right_mono)
    then show ?thesis using True assms(2) Vp
      by (simp add: dec V_def [symmetric])
  next
    case False
    then have "0.018 powr 0.45 \<le> X powr 0.45"
      by (intro powr_mono2) auto
    then have "k \<le> 1.099 * X powr 0.45 - 0.099" by (simp add: k_def)
    then have "k / V \<le> (1.099 * X powr 0.45 - 0.099) / V"
      using Vp by (simp add: divide_right_mono)
    then have nk: "\<not> (1.099 * X powr 0.45 - 0.099) / V < k / V" by simp
    have "(X powr 0.45) powr (20 / 9) = X"
      using assms(2) by (simp add: powr_powr)
    then show ?thesis using False assms(2) Vp nk
      by (simp add: dec V_def [symmetric] spow_nonneg)
  qed
qed

lemma ERIMM_float:
  fixes X E_min E_clip :: real
  assumes "0 < b" and "0 < E_min"
  shows "log_encoding_ERIMMRGB X b False E_min E_clip
           = Inr (FloatVal (if X < 0 then 0 else if X \<le> exp 1 * E_min
                            then (1 / (ln E_clip - ln E_min)) * X / (exp 1 * E_min)
                            else (ln X - ln E_min) / (ln E_clip - ln E_min)))"
proof -
  have I: "I_max_of b \<noteq> 0" using I_max_of_pos [OF assms(1)] by simp
  show ?thesis
    using I unfolding ERIMM_X_p ERIMM_l_E_t [OF assms(2)] by simp
qed

lemma ERIMM_decode_float:
  fixes y E_min E_clip :: real
  assumes "0 < b" and "0 < E_min" and "E_min < E_clip"
  shows "log_decoding_ERIMMRGB y b False E_min E_clip
           = (if y \<le> 1 / (ln E_clip - ln E_min)
              then (ln E_clip - ln E_min) * (y * (exp 1 * E_min))
              else exp (y * (ln E_clip - ln E_min) + ln E_min))"
proof -
  have I: "0 < I_max_of b" using I_max_of_pos [OF assms(1)] by simp
  define L where "L = ln E_clip - ln E_min"
  have L: "0 < L" using assms(2,3) by (simp add: L_def)
  have "(y * I_max_of b \<le> I_max_of b / L) = (y \<le> 1 / L)"
    using I L by (simp add: field_simps)
  then show ?thesis
    using I unfolding log_decoding_ERIMMRGB_def to_domain_1_def from_range_1_def Let_def
      L_def [symmetric] ERIMM_l_E_t [OF assms(2)]
    by simp
qed

lemma ERIMM_roundtrip_float:
  fixes X E_min E_clip :: real
  assumes "0 < b" and "0 \<le> X" and "0 < E_min" and "E_min < E_clip"
  shows "log_decoding_ERIMMRGB
           (if X < 0 then 0 else if X \<le> exp 1 * E_min
            then (1 / (ln E_clip - ln E_min)) * X / (exp 1 * E_min)
            else (ln X - ln E_min) / (ln E_clip - ln E_min)) b False E_min E_clip = X"
proof -
  define L where "L = ln E_clip - ln E_min"
  define E_t where "E_t = exp 1 * E_min"
  have L: "0 < L" using assms(3,4) by (simp add: L_def)
  have E_t: "0 < E_t" using assms(3) by (simp add: E_t_def)
  have lt: "ln E_t - ln E_min = 1" using ERIMM_l_E_t [OF assms(3)] by (simp add: E_t_def)
  note dec = ERIMM_decode_float [OF assms(1,3,4), folded L_def E_t_def]
  show ?thesis
    unfolding L_def [symmetric] E_t_def [symmetric]
  proof (cases "X \<le> E_t")
    case True
    then have "(1 / L) * X / E_t \<le> 1 / L"
      using L E_t by (simp add: field_simps)
    then show "log_decoding_ERIMMRGB
           (if X < 0 then 0 else if X \<le> E_t then (1 / L) * X / E_t else (ln X - ln E_min) / L)
           b False E_min E_clip = X"
      using True L E_t assms(2) by (simp add: dec)
  next
    case False
    then have X: "E_t < X" by simp
    then have "ln E_t < ln X" using E_t by simp
    then have "1 < ln X - ln E_min" using lt by simp
    then have "1 / L < (ln X - ln E_min) / L"
      using L by (simp add: divide_strict_right_mono)
    then have nk: "\<not> (ln X - ln E_min) / L \<le> 1 / L" by simp
    have "X = exp (ln X)" using X E_t by simp
    then show "log_decoding_ERIMMRGB
           (if X < 0 then 0 else if X \<le> E_t then (1 / L) * X / E_t else (ln X - ln E_min) / L)
           b False E_min E_clip = X"
      using False L nk assms(2) by (simp add: dec)
  qed
qed

lemma exp_lower_Taylor10:
  fixes x :: real
  assumes "0 \<le> x"
  shows "(\<Sum>m<10. x ^ m / fact m) \<le> exp x"
proof -
  obtain t where t: "\<bar>t\<bar> \<le> \<bar>x\<bar>" "exp x = (\<Sum>m<10. x ^ m / fact m) + (exp t / fact 10) * x ^ 10"
    using Maclaurin_exp_le [of x 10] by blast
  have "0 \<le> (exp t / fact 10) * x ^ 10" using assms by simp
  then show ?thesis using t(2) by linarith
qed

lemma exp_upper_Taylor10:
  fixes x :: real
  assumes "0 \<le> x" and "x \<le> 1"
  shows "exp x \<le> (\<Sum>m<10. x ^ m / fact m) + 3 * x ^ 10 / fact 10"
proof -
  obtain t where t: "\<bar>t\<bar> \<le> \<bar>x\<bar>" "exp x = (\<Sum>m<10. x ^ m / fact m) + (exp t / fact 10) * x ^ 10"
    using Maclaurin_exp_le [of x 10] by blast
  have "t \<le> 1" using t(1) assms by linarith
  then have "exp t \<le> exp 1" by simp
  also have "\<dots> \<le> 3" by (rule exp_le)
  finally have e: "exp t \<le> 3" .
  then have "(exp t / fact 10) * x ^ 10 \<le> (3 / fact 10) * x ^ 10"
    using assms(1) by (intro mult_right_mono divide_right_mono) auto
  then show ?thesis using t(2) by simp
qed

lemma taylor10_eval:
  "(\<Sum>m<10. x ^ m / fact m) = 1 + x * (1 + x / 2 * (1 + x / 3 * (1 + x / 4 * (1 + x / 5 * (1 + x / 6 * (1 + x / 7 * (1 + x / 8 * (1 + x / 9))))))))" for x :: real
  by (simp add: lessThan_nat_numeral lessThan_Suc fact_numeral eval_nat_numeral field_simps)

lemma ln_lower_from_Taylor:
  fixes a x u y :: real
  assumes "a = of_nat k * x" and "0 \<le> x" and "x \<le> 1"
    and "(\<Sum>m<10. x ^ m / fact m) + 3 * x ^ 10 / fact 10 \<le> u" and "u ^ k < y"
  shows "a < ln y"
proof -
  have "exp a = exp x ^ k" unfolding assms(1) by (rule exp_of_nat_mult)
  also have "\<dots> \<le> u ^ k"
    using exp_upper_Taylor10 [OF assms(2,3)] assms(4) by (intro power_mono) auto
  also have "\<dots> < y" by (rule assms(5))
  finally have e: "exp a < y" .
  have "0 < exp a" by simp
  then have "0 < y" using e by linarith
  then have "ln (exp a) < ln y" using e by (subst ln_less_cancel_iff) simp_all
  then show ?thesis by simp
qed

lemma ln_upper_from_Taylor:
  fixes a x u y :: real
  assumes "a = of_nat k * x" and "0 \<le> x" and "0 \<le> u"
    and "u \<le> (\<Sum>m<10. x ^ m / fact m)" and "y < u ^ k" and "0 < y"
  shows "ln y < a"
proof -
  have "y < u ^ k" by (rule assms(5))
  also have "\<dots> \<le> exp x ^ k"
    using exp_lower_Taylor10 [OF assms(2)] assms(3,4) by (intro power_mono) auto
  also have "\<dots> = exp a" unfolding assms(1) by (rule exp_of_nat_mult [symmetric])
  finally have "y < exp a" .
  then have "ln y < ln (exp a)" using assms(6) by (subst ln_less_cancel_iff) simp_all
  then show ?thesis by simp
qed

lemma ln_180_lower: "5.19295684 < ln (180::real)"
proof (rule ln_lower_from_Taylor [where k = 16 and x = "129823921 / 400000000" and u = "13834215332323 / 10000000000000"])
  show "(5.19295684::real) = of_nat 16 * (129823921 / 400000000)" by simp
  show "(0::real) \<le> 129823921 / 400000000" by simp
  show "(129823921 / 400000000 :: real) \<le> 1" by simp
  show "(\<Sum>m<10. (129823921 / 400000000 :: real) ^ m / fact m) + 3 * (129823921 / 400000000) ^ 10 / fact 10 \<le> 13834215332323 / 10000000000000"
    unfolding taylor10_eval by (simp add: fact_numeral power_divide divide_simps)
  show "(13834215332323 / 10000000000000 :: real) ^ 16 < 180"
    by (simp add: power_divide divide_simps)
qed

lemma ln_180_upper: "ln (180::real) < 5.19295686"
proof (rule ln_upper_from_Taylor [where k = 16 and x = "259647843 / 800000000" and u = "3458553837377 / 2500000000000"])
  show "(5.19295686::real) = of_nat 16 * (259647843 / 800000000)" by simp
  show "(0::real) \<le> 259647843 / 800000000" by simp
  show "(0::real) \<le> 3458553837377 / 2500000000000" by simp
  show "3458553837377 / 2500000000000 \<le> (\<Sum>m<10. (259647843 / 800000000 :: real) ^ m / fact m)"
    unfolding taylor10_eval by (simp add: power_divide divide_simps)
  show "(180::real) < (3458553837377 / 2500000000000) ^ 16"
    by (simp add: power_divide divide_simps)
  show "(0::real) < 180" by simp
qed

lemma ln_316200_lower: "12.6641301 < ln (316200::real)"
proof (rule ln_lower_from_Taylor [where k = 32 and x = "126641301 / 320000000" and u = "7427519680961 / 5000000000000"])
  show "(12.6641301::real) = of_nat 32 * (126641301 / 320000000)" by simp
  show "(0::real) \<le> 126641301 / 320000000" by simp
  show "(126641301 / 320000000 :: real) \<le> 1" by simp
  show "(\<Sum>m<10. (126641301 / 320000000 :: real) ^ m / fact m) + 3 * (126641301 / 320000000) ^ 10 / fact 10 \<le> 7427519680961 / 5000000000000"
    unfolding taylor10_eval by (simp add: fact_numeral power_divide divide_simps)
  show "(7427519680961 / 5000000000000 :: real) ^ 32 < 316200"
    by (simp add: power_divide divide_simps)
qed

lemma ln_316200_upper: "ln (316200::real) < 12.6641303"
proof (rule ln_upper_from_Taylor [where k = 32 and x = "126641303 / 320000000" and u = "7427519726993 / 5000000000000"])
  show "(12.6641303::real) = of_nat 32 * (126641303 / 320000000)" by simp
  show "(0::real) \<le> 126641303 / 320000000" by simp
  show "(0::real) \<le> 7427519726993 / 5000000000000" by simp
  show "7427519726993 / 5000000000000 \<le> (\<Sum>m<10. (126641303 / 320000000 :: real) ^ m / fact m)"
    unfolding taylor10_eval by (simp add: power_divide divide_simps)
  show "(316200::real) < (7427519726993 / 5000000000000) ^ 32"
    by (simp add: power_divide divide_simps)
  show "(0::real) < 316200" by simp
qed


lemma powr_018_59: "0.38571142 \<le> (0.18::real) powr (5 / 9)" "(0.18::real) powr (5 / 9) \<le> 0.38571143"
proof -
  have "(0.38571142::real) \<le> 0.18 powr (real 5 / real 9)"
    by (rule powr_ge_from_power) (simp_all add: power_divide divide_simps)
  then show "0.38571142 \<le> (0.18::real) powr (5 / 9)" by simp
  have "(0.18::real) powr (real 5 / real 9) \<le> 0.38571143"
    by (rule powr_le_from_power) (simp_all add: power_divide divide_simps)
  then show "(0.18::real) powr (5 / 9) \<le> 0.38571143" by simp
qed

lemma powr_018_045: "0.4622454311 \<le> (0.18::real) powr 0.45" "(0.18::real) powr 0.45 \<le> 0.4622454312"
proof -
  have "(0.4622454311::real) \<le> 0.18 powr (real 9 / real 20)"
    by (rule powr_ge_from_power) (simp_all add: power_divide divide_simps)
  then show "0.4622454311 \<le> (0.18::real) powr 0.45" by simp
  have "(0.18::real) powr (real 9 / real 20) \<le> 0.4622454312"
    by (rule powr_le_from_power) (simp_all add: power_divide divide_simps)
  then show "(0.18::real) powr 0.45 \<le> 0.4622454312" by simp
qed

lemma powr_2_045: "1.3660402567 \<le> (2::real) powr 0.45" "(2::real) powr 0.45 \<le> 1.3660402568"
proof -
  have "(1.3660402567::real) \<le> 2 powr (real 9 / real 20)"
    by (rule powr_ge_from_power) (simp_all add: power_divide divide_simps)
  then show "1.3660402567 \<le> (2::real) powr 0.45" by simp
  have "(2::real) powr (real 9 / real 20) \<le> 1.3660402568"
    by (rule powr_le_from_power) (simp_all add: power_divide divide_simps)
  then show "(2::real) powr 0.45 \<le> 1.3660402568" by simp
qed

lemma V_clip_2_bounds: "1.4022782421 \<le> V_clip_of 2" "V_clip_of 2 \<le> 1.4022782423"
  using powr_2_045 by (simp_all add: V_clip_of_def spow_nonneg)

lemma ratio_within:
  fixes N V c e :: real
  assumes "0 < V" and "(c - e) * V < N" and "N < (c + e) * V"
  shows "\<bar>N / V - c\<bar> < e"
proof -
  have "c - e < N / V" using assms(1,2) by (simp add: pos_less_divide_eq)
  moreover have "N / V < c + e" using assms(1,3) by (simp add: pos_divide_less_eq)
  ultimately show ?thesis by (simp add: abs_less_iff)
qed

lemma np_round_ratio:
  fixes N V k :: real
  assumes "0 < V" and "(of_int n - 1 / 2) * V < k * N" and "k * N < (of_int n + 1 / 2) * V"
  shows "np_round (k / V * N) = n" and "np_round (k * (N / V)) = n"
proof -
  have "of_int n - 1 / 2 < k * N / V" using assms(1,2) by (simp add: pos_less_divide_eq)
  moreover have "k * N / V < of_int n + 1 / 2" using assms(1,3) by (simp add: pos_divide_less_eq)
  ultimately have "np_round (k * N / V) = n" by (rule np_round_eqI)
  then show "np_round (k / V * N) = n" and "np_round (k * (N / V)) = n" by simp_all
qed

lemma int_code_value_eqI:
  assumes "b \<le> 64" and "of_int n - 1 / 2 < x" and "x < of_int n + 1 / 2"
    and "- (2 ^ 63) \<le> n" and "n < 2 ^ 63"
  shows "int_code_value b x = Inr (IntCode n)"
  using assms(1) np_round_eqI [OF assms(2,3)] assms(4,5) by (rule int_code_value_in_range)

lemma ROMM_018:
  "cctf_encoding_ROMMRGB 0.18 8 False = Inr (FloatVal (0.18 powr (5 / 9)))"
  "cctf_encoding_ROMMRGB 0.18 8 True = int_code_value 8 (0.18 powr (5 / 9) * 255)"
  by (simp_all add: ROMM_X_p I_max_of_8 spow_nonneg)

lemma RIMM_value:
  assumes "0 < b" and "0.018 \<le> X"
  shows "cctf_encoding_RIMMRGB X b False E_clip
           = Inr (FloatVal ((1.099 * X powr 0.45 - 0.099) / V_clip_of E_clip))"
    and "cctf_encoding_RIMMRGB X b True E_clip
           = int_code_value b (I_max_of b / V_clip_of E_clip * (1.099 * X powr 0.45 - 0.099))"
proof -
  have X: "\<not> X < 0" "\<not> X < 0.018" "0 \<le> X" using assms(2) by auto
  show "cctf_encoding_RIMMRGB X b False E_clip
           = Inr (FloatVal ((1.099 * X powr 0.45 - 0.099) / V_clip_of E_clip))"
    unfolding RIMM_float [OF assms(1)] using X by (simp add: spow_nonneg)
  show "cctf_encoding_RIMMRGB X b True E_clip
           = int_code_value b (I_max_of b / V_clip_of E_clip * (1.099 * X powr 0.45 - 0.099))"
    unfolding RIMM_X_p using X by (simp add: spow_nonneg)
qed

lemma ERIMM_value:
  assumes "3 / 1000 < (X::real)"
  shows "log_encoding_ERIMMRGB X 8 False 0.001 316.2
           = Inr (FloatVal (ln (1000 * X) / ln 316200))"
    and "log_encoding_ERIMMRGB X 8 True 0.001 316.2
           = int_code_value 8 (255 * (ln (1000 * X) / ln 316200))"
proof -
  have "exp 1 * (0.001::real) \<le> 3 * 0.001" using exp_le by simp
  then have e: "exp 1 * (0.001::real) < X" using assms by simp
  have a: "ln X - ln (0.001::real) = ln (1000 * X)"
    using ln_div [of X "0.001"] assms by (simp add: mult.commute)
  have b: "ln (316.2::real) - ln 0.001 = ln 316200"
    using ln_div [of "316.2::real" "0.001"] by simp
  have X: "\<not> X < 0" "\<not> X \<le> exp 1 * 0.001" using e assms by auto
  show "log_encoding_ERIMMRGB X 8 False 0.001 316.2
           = Inr (FloatVal (ln (1000 * X) / ln 316200))"
    using X unfolding ERIMM_X_p I_max_of_8 a b by simp
  show "log_encoding_ERIMMRGB X 8 True 0.001 316.2
           = int_code_value 8 (255 * (ln (1000 * X) / ln 316200))"
    using X unfolding ERIMM_X_p I_max_of_8 a b by simp
qed

text \<open>
  Claim C6: at bit depth 8 and the default parameters the encodings of \<open>0.18\<close> are
  \<open>0.3857114\<close>, \<open>0.2916738\<close> and \<open>0.4100523\<close> (each within \<open>10\<^sup>-\<^sup>7\<close>) in float
  mode, and the code values \<open>98\<close>, \<open>74\<close> and \<open>105\<close> in integer mode.
\<close>

theorem encode_mid_grey_values:
  "(\<exists>v. cctf_encoding_ROMMRGB 0.18 8 False = Inr (FloatVal v) \<and> \<bar>v - 0.3857114\<bar> < 1 / 10 ^ 7)
   \<and> cctf_encoding_ROMMRGB 0.18 8 True = Inr (IntCode 98)
   \<and> (\<exists>v. cctf_encoding_RIMMRGB 0.18 8 False 2.0 = Inr (FloatVal v) \<and> \<bar>v - 0.2916738\<bar> < 1 / 10 ^ 7)
   \<and> cctf_encoding_RIMMRGB 0.18 8 True 2.0 = Inr (IntCode 74)
   \<and> (\<exists>v. log_encoding_ERIMMRGB 0.18 8 False 0.001 316.2 = Inr (FloatVal v)
          \<and> \<bar>v - 0.4100523\<bar> < 1 / 10 ^ 7)
   \<and> log_encoding_ERIMMRGB 0.18 8 True 0.001 316.2 = Inr (IntCode 105)"
proof -
  have "\<bar>0.18 powr (5 / 9) - 0.3857114\<bar> < (1 / 10 ^ 7 :: real)"
    using powr_018_59 by (simp add: abs_less_iff)
  then have romm_f: "\<exists>v. cctf_encoding_ROMMRGB 0.18 8 False = Inr (FloatVal v)
      \<and> \<bar>v - 0.3857114\<bar> < 1 / 10 ^ 7"
    unfolding ROMM_018 by simp
  have romm_i: "cctf_encoding_ROMMRGB 0.18 8 True = Inr (IntCode 98)"
    unfolding ROMM_018 using powr_018_59 by (intro int_code_value_eqI) simp_all
  have V: "0 < V_clip_of 2" using V_clip_2_bounds(1) by simp
  have "\<bar>(1.099 * 0.18 powr 0.45 - 0.099) / V_clip_of 2 - 0.2916738\<bar> < 1 / 10 ^ 7"
    using powr_018_045 V_clip_2_bounds by (intro ratio_within [OF V]) simp_all
  then have rimm_f: "\<exists>v. cctf_encoding_RIMMRGB 0.18 8 False 2.0 = Inr (FloatVal v)
      \<and> \<bar>v - 0.2916738\<bar> < 1 / 10 ^ 7"
    by (simp add: RIMM_value)
  have rimm_i: "cctf_encoding_RIMMRGB 0.18 8 True 2.0 = Inr (IntCode 74)"
  proof -
    have "np_round (255 / V_clip_of 2 * (1.099 * 0.18 powr 0.45 - 0.099)) = 74"
      using powr_018_045 V_clip_2_bounds by (intro np_round_ratio(1) [OF V]) simp_all
    then have "int_code_value 8 (255 / V_clip_of 2 * (1.099 * 0.18 powr 0.45 - 0.099))
        = Inr (IntCode 74)"
      by (intro int_code_value_in_range) simp_all
    then show ?thesis by (simp add: RIMM_value I_max_of_8)
  qed
  have B: "0 < ln (316200::real)" using ln_316200_lower by simp
  have "\<bar>ln 180 / ln (316200::real) - 0.4100523\<bar> < 1 / 10 ^ 7"
    using ln_180_lower ln_180_upper ln_316200_lower ln_316200_upper
    by (intro ratio_within [OF B]) simp_all
  then have erimm_f: "\<exists>v. log_encoding_ERIMMRGB 0.18 8 False 0.001 316.2 = Inr (FloatVal v)
          \<and> \<bar>v - 0.4100523\<bar> < 1 / 10 ^ 7"
    using ERIMM_value(1) [of "0.18"] by simp
  have erimm_i: "log_encoding_ERIMMRGB 0.18 8 True 0.001 316.2 = Inr (IntCode 105)"
  proof -
    have "np_round (255 * (ln 180 / ln (316200::real))) = 105"
      using ln_180_lower ln_180_upper ln_316200_lower ln_316200_upper
      by (intro np_round_ratio(2) [OF B]) simp_all
    then have "int_code_value 8 (255 * (ln 180 / ln (316200::real))) = Inr (IntCode 105)"
      by (intro int_code_value_in_range) simp_all
    then show ?thesis using ERIMM_value(2) [of "0.18"] by simp
  qed
  show ?thesis using romm_f romm_i rimm_f rimm_i erimm_f erimm_i by blast
qed

text \<open>
  Claim C2, as stated, asks for \<open>decode (encode X)\<close> within \<open>10\<^sup>-\<^sup>6\<close> of \<open>X\<close> in
  integer-code-value mode too. At bit depth 8 the ROMM code value of \<open>0.18\<close> is \<open>98\<close>, and
  decoding \<open>98\<close> gives less than \<open>0.1789\<close>.
\<close>

theorem ROMM_integer_roundtrip_beyond_tolerance:
  "(0::real) \<le> 0.18 \<and> (0.18::real) \<le> 1
   \<and> cctf_encoding_ROMMRGB 0.18 8 True = Inr (IntCode 98)
   \<and> 1 / 10 ^ 6 < \<bar>cctf_decoding_ROMMRGB 98 8 True - 0.18\<bar>"
proof -
  have "(98 / 255 :: real) powr (real 9 / real 5) \<le> 0.1789"
    by (rule powr_le_from_power) (simp_all add: power_divide divide_simps)
  then have p: "(98 / 255 :: real) powr (9 / 5) \<le> 0.1789" by simp
  have "cctf_decoding_ROMMRGB 98 8 True = cctf_decoding_ROMMRGB (98 / 255) 8 False"
    using decode_int_as_float(1) [of 8 98] by (simp add: I_max_of_8)
  also have "\<dots> = (98 / 255) powr (9 / 5)"
    by (simp add: ROMM_decode_float spow_nonneg)
  finally have d: "cctf_decoding_ROMMRGB 98 8 True \<le> 0.1789" using p by simp
  have c: "cctf_encoding_ROMMRGB 0.18 8 True = Inr (IntCode 98)"
    unfolding ROMM_018 using powr_018_59 by (intro int_code_value_eqI) simp_all
  show ?thesis using d c by (simp add: abs_if)
qed

lemma piecewise_lipschitz:
  fixes f1 f2 :: "real \<Rightarrow> real"
  assumes f1: "\<And>a b. lo \<le> a \<Longrightarrow> a \<le> b \<Longrightarrow> b \<le> t \<Longrightarrow> \<bar>f1 b - f1 a\<bar> \<le> K * (b - a)"
    and f2: "\<And>a b. t \<le> a \<Longrightarrow> a \<le> b \<Longrightarrow> b \<le> up \<Longrightarrow> \<bar>f2 b - f2 a\<bar> \<le> K * (b - a)"
    and J: "\<bar>f2 t - f1 t\<bar> \<le> J"
    and t: "lo \<le> t" "t \<le> up"
    and x: "lo \<le> x" "x \<le> up" "P x \<Longrightarrow> x \<le> t" "\<not> P x \<Longrightarrow> t \<le> x"
    and y: "lo \<le> y" "y \<le> up" "P y \<Longrightarrow> y \<le> t" "\<not> P y \<Longrightarrow> t \<le> y"
  shows "\<bar>(if P x then f1 x else f2 x) - (if P y then f1 y else f2 y)\<bar> \<le> K * \<bar>x - y\<bar> + J"
proof -
  have J0: "0 \<le> J" using J by linarith
  have same1: "\<bar>f1 u - f1 v\<bar> \<le> K * \<bar>u - v\<bar>" if "lo \<le> u" "u \<le> t" "lo \<le> v" "v \<le> t" for u v
  proof (cases "u \<le> v")
    case True
    then show ?thesis using f1 [of u v] that by (simp add: abs_minus_commute)
  next
    case False
    then show ?thesis using f1 [of v u] that by simp
  qed
  have same2: "\<bar>f2 u - f2 v\<bar> \<le> K * \<bar>u - v\<bar>" if "t \<le> u" "u \<le> up" "t \<le> v" "v \<le> up" for u v
  proof (cases "u \<le> v")
    case True
    then show ?thesis using f2 [of u v] that by (simp add: abs_minus_commute)
  next
    case False
    then show ?thesis using f2 [of v u] that by simp
  qed
  have mixed: "\<bar>f1 u - f2 v\<bar> \<le> K * \<bar>u - v\<bar> + J" if "lo \<le> u" "u \<le> t" "t \<le> v" "v \<le> up" for u v
  proof -
    have a: "\<bar>f1 t - f1 u\<bar> \<le> K * (t - u)" using f1 [of u t] that by simp
    have b: "\<bar>f2 v - f2 t\<bar> \<le> K * (v - t)" using f2 [of t v] that by simp
    have "K * (t - u) + K * (v - t) = K * \<bar>u - v\<bar>"
      using that by (simp add: algebra_simps)
    then show ?thesis using a b J by linarith
  qed
  show ?thesis
  proof (cases "P x")
    case px: True
    show ?thesis
    proof (cases "P y")
      case True
      then show ?thesis using px same1 [of x y] x y J0 by simp
    next
      case False
      then show ?thesis using px mixed [of x y] x y by simp
    qed
  next
    case px: False
    show ?thesis
    proof (cases "P y")
      case True
      then show ?thesis using px mixed [of y x] x y by (simp add: abs_minus_commute)
    next
      case False
      then show ?thesis using px same2 [of x y] x y J0 by simp
    qed
  qed
qed

lemma powr_diff_le:
  fixes a b r :: real
  assumes "0 < a" and "a \<le> b" and "1 \<le> r"
  shows "0 \<le> b powr r - a powr r" and "b powr r - a powr r \<le> r * b powr (r - 1) * (b - a)"
proof -
  show "0 \<le> b powr r - a powr r"
    using powr_mono2 [of r a b] assms by simp
  show "b powr r - a powr r \<le> r * b powr (r - 1) * (b - a)"
  proof (cases "a = b")
    case True
    then show ?thesis by simp
  next
    case False
    then have ab: "a < b" using assms(2) by simp
    have d: "DERIV (\<lambda>x. x powr r) x :> r * x powr (r - 1)" if "a \<le> x" for x
      using that assms(1) by (intro has_real_derivative_powr) simp
    obtain z where z: "a < z" "z < b" "b powr r - a powr r = (b - a) * (r * z powr (r - 1))"
      using MVT2 [OF ab, of "\<lambda>x. x powr r" "\<lambda>x. r * x powr (r - 1)"] d by blast
    have "z powr (r - 1) \<le> b powr (r - 1)"
      using z assms by (intro powr_mono2) simp_all
    then have "(b - a) * (r * z powr (r - 1)) \<le> (b - a) * (r * b powr (r - 1))"
      using ab assms(3) by (intro mult_left_mono) simp_all
    then show ?thesis using z(3) by (simp add: mult.commute)
  qed
qed

lemma exp_diff_le: "exp b - exp a \<le> exp b * (b - a)" for a b :: real
proof -
  have "1 + (a - b) \<le> exp (a - b)" by (rule exp_ge_add_one_self)
  then have "exp b * (1 + (a - b)) \<le> exp b * exp (a - b)"
    by (intro mult_left_mono) simp_all
  also have "\<dots> = exp a" by (simp add: exp_add [symmetric])
  finally show ?thesis by (simp add: algebra_simps)
qed

lemma I_max_of_bounds:
  assumes "8 \<le> b" and "b \<le> 16"
  shows "255 \<le> I_max_of b" and "I_max_of b \<le> 65535"
proof -
  have "(2::real) powr 8 \<le> 2 powr (of_int b)" using assms(1) by (intro powr_mono) simp_all
  then show "255 \<le> I_max_of b" by (simp add: I_max_of_def)
  have "(2::real) powr (of_int b) \<le> 2 powr 16" using assms(2) by (intro powr_mono) simp_all
  then show "I_max_of b \<le> 65535" by (simp add: I_max_of_def)
qed

lemma roundtrip_int_frame:
  fixes F :: "real \<Rightarrow> real"
  assumes I: "255 \<le> I" "I \<le> 65535"
    and y0: "0 \<le> y0" "y0 \<le> ymax" "ymax \<le> 1"
    and lip: "\<And>x y. 0 \<le> x \<Longrightarrow> x \<le> ymax + 1 / 510 \<Longrightarrow> 0 \<le> y \<Longrightarrow> y \<le> ymax + 1 / 510
                \<Longrightarrow> \<bar>F x - F y\<bar> \<le> K * \<bar>x - y\<bar> + J"
    and K: "0 \<le> K" "0 \<le> J" "K / 2 + J * 65535 \<le> 7"
  shows "as_int (np_round (y0 * I)) = np_round (y0 * I)"
    and "\<bar>F (of_int (np_round (y0 * I)) / I) - F y0\<bar> \<le> 7 / I"
proof -
  define c where "c = np_round (y0 * I)"
  have Ip: "0 < I" using I(1) by simp
  have c0: "0 \<le> c" unfolding c_def using y0(1) Ip by (intro np_round_nonneg) simp
  have r: "\<bar>of_int c - y0 * I\<bar> \<le> 1 / 2" unfolding c_def by (rule np_round_bounds)
  have "y0 * I \<le> 1 * 65535"
    using y0 I by (intro mult_mono) simp_all
  then have "of_int c \<le> (65536 :: real)" using r by linarith
  then have "c \<le> 65536" by linarith
  then show "as_int (np_round (y0 * I)) = np_round (y0 * I)"
    using c0 by (simp add: c_def [symmetric] as_int_def)
  have "of_int c / I - y0 = (of_int c - y0 * I) / I"
    using Ip by (simp add: diff_divide_distrib)
  then have "\<bar>of_int c / I - y0\<bar> = \<bar>of_int c - y0 * I\<bar> / I"
    using Ip by (simp add: abs_divide)
  also have "\<dots> \<le> (1 / 2) / I" using r Ip by (intro divide_right_mono) simp_all
  finally have d: "\<bar>of_int c / I - y0\<bar> \<le> 1 / (2 * I)" by simp
  have "1 / (2 * I) \<le> 1 / (2 * 255)" using I(1) by (intro divide_left_mono) simp_all
  then have d510: "\<bar>of_int c / I - y0\<bar> \<le> 1 / 510" using d by simp
  have x0: "0 \<le> of_int c / I" using c0 Ip by simp
  have x1: "of_int c / I \<le> ymax + 1 / 510" using d510 y0(2) by linarith
  have "\<bar>F (of_int c / I) - F y0\<bar> \<le> K * \<bar>of_int c / I - y0\<bar> + J"
    using x0 x1 y0 by (intro lip) simp_all
  also have "\<dots> \<le> K * (1 / (2 * I)) + J"
    using mult_left_mono [OF d K(1)] by linarith
  also have "\<dots> = (K / 2 + J * I) / I" using Ip by (simp add: field_simps)
  also have "\<dots> \<le> 7 / I"
  proof -
    have "J * I \<le> J * 65535" using I(2) K(2) by (intro mult_left_mono) simp_all
    then have "K / 2 + J * I \<le> 7" using K(3) by linarith
    then show ?thesis using Ip by (intro divide_right_mono) simp_all
  qed
  finally show "\<bar>F (of_int (np_round (y0 * I)) / I) - F y0\<bar> \<le> 7 / I"
    by (simp add: c_def)
qed

lemma powr_le_max:
  fixes x p q :: real
  assumes "0 \<le> x" and "0 \<le> p" and "p \<le> q"
  shows "x powr p \<le> max 1 (x powr q)"
proof (cases "x \<le> 1")
  case True
  then have "x powr p \<le> 1" using assms(1,2) by (intro powr_le1) simp_all
  then show ?thesis by simp
next
  case False
  then have "x powr p \<le> x powr q" using assms(3) by (intro powr_mono) simp_all
  then show ?thesis by simp
qed

lemma ROMM_decode_knee: "(1 / 32 :: real) powr (9 / 5) = 1 / 512"
proof -
  have "(1 / 32 :: real) = 2 powr (- 5)" by (simp add: powr_minus divide_simps)
  then have "(1 / 32 :: real) powr (9 / 5) = (2 powr (- 5)) powr (9 / 5)"
    by (rule arg_cong)
  also have "\<dots> = 2 powr (- 9)" by (simp only: powr_powr) simp
  also have "\<dots> = 1 / 512" by (simp add: powr_minus divide_simps)
  finally show ?thesis .
qed

lemma ROMM_decode_lipschitz:
  fixes x y :: real
  assumes "0 \<le> x" and "x \<le> 1 + 1 / 510" and "0 \<le> y" and "y \<le> 1 + 1 / 510"
  shows "\<bar>(if x < 1 / 32 then x / 16 else spow x (9 / 5))
          - (if y < 1 / 32 then y / 16 else spow y (9 / 5))\<bar> \<le> 1.81 * \<bar>x - y\<bar> + 0"
proof (rule piecewise_lipschitz [where lo = 0 and t = "1 / 32" and up = "1 + 1 / 510"])
  fix a b :: real
  assume "0 \<le> a" "a \<le> b" "b \<le> 1 / 32"
  then show "\<bar>b / 16 - a / 16\<bar> \<le> 1.81 * (b - a)" by simp
next
  fix a b :: real
  assume ab: "1 / 32 \<le> a" "a \<le> b" "b \<le> 1 + 1 / 510"
  have a0: "0 < a" using ab(1) by simp
  have b0: "0 \<le> b" using ab by simp
  have r: "(1::real) \<le> 9 / 5" by simp
  note d = powr_diff_le [OF a0 ab(2) r]
  have "b powr (4 / 5) \<le> max 1 (b powr 1)" using b0 by (intro powr_le_max) simp_all
  also have "\<dots> \<le> 1 + 1 / 510" using ab b0 by simp
  finally have p: "b powr (4 / 5) \<le> 1 + 1 / 510" .
  have "b powr (9 / 5) - a powr (9 / 5) \<le> 9 / 5 * b powr (9 / 5 - 1) * (b - a)"
    by (rule d(2))
  also have "\<dots> \<le> 9 / 5 * (1 + 1 / 510) * (b - a)"
    using p ab(2) by (intro mult_right_mono mult_left_mono) simp_all
  also have "\<dots> \<le> 1.81 * (b - a)" using ab(2) by (intro mult_right_mono) simp_all
  finally have "b powr (9 / 5) - a powr (9 / 5) \<le> 1.81 * (b - a)" .
  then show "\<bar>spow b (9 / 5) - spow a (9 / 5)\<bar> \<le> 1.81 * (b - a)"
    using d(1) a0 b0 by (simp add: spow_nonneg)
next
  show "\<bar>spow (1 / 32) (9 / 5) - 1 / 32 / 16\<bar> \<le> (0::real)"
    by (simp add: spow_nonneg ROMM_decode_knee)
qed (use assms in simp_all)

lemma ROMM_float_range:
  assumes "0 \<le> X" and "X \<le> 1"
  shows "0 \<le> (if X < 1 / 512 then X * 16 else spow X (5 / 9))"
    and "(if X < 1 / 512 then X * 16 else spow X (5 / 9)) \<le> 1"
  using assms by (auto simp: spow_nonneg powr_le1)

lemma ROMM_roundtrip_int:
  assumes "8 \<le> b" and "b \<le> 16" and "0 \<le> X" and "X \<le> 1"
  shows "\<exists>c. cctf_encoding_ROMMRGB X b True = Inr (IntCode c)
           \<and> \<bar>cctf_decoding_ROMMRGB (of_int c) b True - X\<bar> \<le> 7 / I_max_of b"
proof -
  define y0 where "y0 = (if X < 1 / 512 then X * 16 else spow X (5 / 9))"
  define F :: "real \<Rightarrow> real" where "F = (\<lambda>y. if y < 1 / 32 then y / 16 else spow y (9 / 5))"
  have b0: "0 < b" and b64: "b \<le> 64" using assms(1,2) by simp_all
  note I = I_max_of_bounds [OF assms(1,2)]
  have y0: "0 \<le> y0" "y0 \<le> 1" unfolding y0_def using ROMM_float_range [OF assms(3,4)] by simp_all
  have lip: "\<bar>F x - F y\<bar> \<le> 1.81 * \<bar>x - y\<bar> + 0"
    if "0 \<le> x" "x \<le> 1 + 1 / 510" "0 \<le> y" "y \<le> 1 + 1 / 510" for x y
    unfolding F_def using that by (rule ROMM_decode_lipschitz)
  note fr = roundtrip_int_frame [where F = F and K = "1.81" and J = 0 and ymax = 1,
      OF I y0 _ lip]
  have Xp: "(if X < 1 / 512 then X * 16 * I_max_of b else spow X (5 / 9) * I_max_of b)
      = y0 * I_max_of b"
    by (simp add: y0_def)
  have enc: "cctf_encoding_ROMMRGB X b True = Inr (IntCode (np_round (y0 * I_max_of b)))"
    unfolding ROMM_X_p Xp using fr(1) by (simp add: int_code_value_Inr [OF b64])
  have dec: "cctf_decoding_ROMMRGB c b True = F (c / I_max_of b)" for c
    unfolding decode_int_as_float(1) [OF b0] F_def by (rule ROMM_decode_float [OF b0])
  have "F y0 = X"
    using ROMM_roundtrip_float [OF b0 assms(3)]
    unfolding y0_def [symmetric] ROMM_decode_float [OF b0] F_def .
  then have "\<bar>cctf_decoding_ROMMRGB (of_int (np_round (y0 * I_max_of b))) b True - X\<bar>
      \<le> 7 / I_max_of b"
    using fr(2) unfolding dec by simp
  then show ?thesis using enc by blast
qed

lemma powr_0018_045_upper: "(0.018::real) powr 0.45 \<le> 0.16403"
proof -
  have "(0.018::real) powr (real 9 / real 20) \<le> 0.16403"
    by (rule powr_le_from_power) (simp_all add: power_divide divide_simps)
  then show ?thesis by simp
qed

lemma RIMM_decode_lipschitz:
  fixes x y :: real
  defines "V \<equiv> V_clip_of 2" and "k \<equiv> 1.099 * 0.018 powr 0.45 - 0.099"
  assumes "0 \<le> x" and "x \<le> 1 / V + 1 / 510" and "0 \<le> y" and "y \<le> 1 / V + 1 / 510"
  shows "\<bar>(if x < k / V then V * x / 4.5 else spow ((V * x + 0.099) / 1.099) (20 / 9))
          - (if y < k / V then V * y / 4.5 else spow ((V * y + 0.099) / 1.099) (20 / 9))\<bar>
         \<le> 2.86 * \<bar>x - y\<bar> + 6 / 10 ^ 5"
proof (rule piecewise_lipschitz [where lo = 0 and t = "k / V" and up = "1 / V + 1 / 510"])
  have V: "1.4022782421 \<le> V" "V \<le> 1.4022782423" "0 < V"
    using V_clip_2_bounds by (simp_all add: V_def)
  have k: "0.081 \<le> k" "k \<le> 0.08127"
    using RIMM_knee powr_0018_045_upper by (simp_all add: k_def)
  have kV: "0 \<le> k / V" using k V by simp
  show "0 \<le> k / V" by (rule kV)
  have "k / V \<le> 1 / V" using k V by (intro divide_right_mono) simp_all
  then show "k / V \<le> 1 / V + 1 / 510" by simp
  show "\<bar>V * b / 4.5 - V * a / 4.5\<bar> \<le> 2.86 * (b - a)" if "0 \<le> a" "a \<le> b" "b \<le> k / V" for a b
  proof -
    have "V * (b - a) \<le> 1.4022782423 * (b - a)" using V that by (intro mult_right_mono) simp_all
    moreover have "0 \<le> V * (b - a)" using V that by simp
    ultimately show ?thesis by (simp add: right_diff_distrib)
  qed
  show "\<bar>spow ((V * b + 0.099) / 1.099) (20 / 9) - spow ((V * a + 0.099) / 1.099) (20 / 9)\<bar>
          \<le> 2.86 * (b - a)"
    if ab: "k / V \<le> a" "a \<le> b" "b \<le> 1 / V + 1 / 510" for a b
  proof -
    define ua where "ua = (V * a + 0.099) / 1.099"
    define ub where "ub = (V * b + 0.099) / 1.099"
    have a0: "0 \<le> a" using ab(1) kV by simp
    have Va: "0 \<le> V * a" using a0 V by simp
    have ua0: "0 < ua" using Va by (simp add: ua_def)
    have "V * a \<le> V * b" using ab(2) V by (intro mult_left_mono) simp_all
    then have uab: "ua \<le> ub" by (simp add: ua_def ub_def)
    have "V * b \<le> V * (1 / V + 1 / 510)" using ab(3) V by (intro mult_left_mono) simp_all
    also have "\<dots> = 1 + V / 510" using V by (simp add: algebra_simps)
    also have "\<dots> \<le> 1 + 1.4022782423 / 510" using V by simp
    finally have "ub \<le> (1 + 1.4022782423 / 510 + 0.099) / 1.099"
      unfolding ub_def by (intro divide_right_mono) simp_all
    then have ub1: "ub \<le> 1.002502" by simp
    have ub0: "0 < ub" using ua0 uab by simp
    have "ub powr (11 / 9) \<le> max 1 (ub powr 2)" using ub0 by (intro powr_le_max) simp_all
    also have "ub powr 2 = ub ^ 2" using ub0 by (simp add: powr_numeral)
    also have "max 1 (ub ^ 2) \<le> 1.0051"
    proof -
      have "ub ^ 2 \<le> 1.002502 ^ 2" using ub0 ub1 by (intro power_mono) simp_all
      also have "(1.002502::real) ^ 2 \<le> 1.0051" by (simp add: power2_eq_square)
      finally show ?thesis by simp
    qed
    finally have p: "ub powr (11 / 9) \<le> 1.0051" .
    have r: "(1::real) \<le> 20 / 9" by simp
    note d = powr_diff_le [OF ua0 uab r]
    have diff: "ub - ua = V * (b - a) / 1.099"
      by (simp add: ua_def ub_def field_simps)
    have d0: "0 \<le> ub - ua" using uab by simp
    have "V * (b - a) \<le> 1.4022782423 * (b - a)" using V ab(2) by (intro mult_right_mono) simp_all
    then have du: "ub - ua \<le> 1.4022782423 * (b - a) / 1.099"
      unfolding diff by (intro divide_right_mono) simp_all
    have "ub powr (20 / 9) - ua powr (20 / 9) \<le> 20 / 9 * ub powr (20 / 9 - 1) * (ub - ua)"
      by (rule d(2))
    also have "\<dots> \<le> 20 / 9 * 1.0051 * (ub - ua)"
      using p d0 by (intro mult_right_mono mult_left_mono) simp_all
    also have "\<dots> \<le> 20 / 9 * 1.0051 * (1.4022782423 * (b - a) / 1.099)"
      using du by (intro mult_left_mono) simp_all
    also have "\<dots> \<le> 2.86 * (b - a)" using ab(2) by simp
    finally have "ub powr (20 / 9) - ua powr (20 / 9) \<le> 2.86 * (b - a)" .
    then show ?thesis
      using d(1) ua0 ub0 unfolding ua_def [symmetric] ub_def [symmetric]
      by (simp add: spow_nonneg)
  qed
  show "\<bar>spow ((V * (k / V) + 0.099) / 1.099) (20 / 9) - V * (k / V) / 4.5\<bar> \<le> 6 / 10 ^ 5"
  proof -
    have e: "V * (k / V) = k" using V by simp
    have "(k + 0.099) / 1.099 = 0.018 powr 0.45" by (simp add: k_def)
    moreover have "((0.018::real) powr 0.45) powr (20 / 9) = 0.018"
      by (simp add: powr_powr)
    ultimately have "spow ((k + 0.099) / 1.099) (20 / 9) = 0.018"
      by (simp add: spow_nonneg)
    then show ?thesis unfolding e using k by (simp add: abs_if)
  qed
qed (use assms in simp_all)

lemma RIMM_float_range:
  fixes X :: real
  assumes "0 \<le> X" and "X \<le> 1"
  shows "0 \<le> (if X < 0 then 0 else if X < 0.018 then 4.5 * X else 1.099 * spow X 0.45 - 0.099)"
    and "(if X < 0 then 0 else if X < 0.018 then 4.5 * X else 1.099 * spow X 0.45 - 0.099) \<le> 1"
proof -
  show "0 \<le> (if X < 0 then 0 else if X < 0.018 then 4.5 * X else 1.099 * spow X 0.45 - 0.099)"
    using RIMM_core_mono [OF assms(1)] by simp
  show "(if X < 0 then 0 else if X < 0.018 then 4.5 * X else 1.099 * spow X 0.45 - 0.099) \<le> 1"
    using RIMM_core_mono [OF assms(2)] by (simp add: spow_one)
qed

lemma RIMM_roundtrip_int:
  assumes "8 \<le> b" and "b \<le> 16" and "0 \<le> X" and "X \<le> 1"
  shows "\<exists>c X'. cctf_encoding_RIMMRGB X b True 2 = Inr (IntCode c)
           \<and> cctf_decoding_RIMMRGB (of_int c) b True 2 = Inr X'
           \<and> \<bar>X' - X\<bar> \<le> 7 / I_max_of b"
proof -
  define V where "V = V_clip_of 2"
  define k :: real where "k = 1.099 * 0.018 powr 0.45 - 0.099"
  define core where
    "core = (if X < 0 then 0 else if X < 0.018 then 4.5 * X else 1.099 * spow X 0.45 - 0.099)"
  define y0 where "y0 = core / V"
  define F :: "real \<Rightarrow> real" where
    "F = (\<lambda>y. if y < k / V then V * y / 4.5 else spow ((V * y + 0.099) / 1.099) (20 / 9))"
  have b0: "0 < b" and b64: "b \<le> 64" using assms(1,2) by simp_all
  note I = I_max_of_bounds [OF assms(1,2)]
  have V: "1.4022782421 \<le> V" "0 < V" using V_clip_2_bounds by (simp_all add: V_def)
  have core: "0 \<le> core" "core \<le> 1"
    unfolding core_def using RIMM_float_range [OF assms(3,4)] by simp_all
  have y0: "0 \<le> y0" "y0 \<le> 1 / V" "1 / V \<le> 1"
    using core V by (simp_all add: y0_def divide_right_mono)
  have lip: "\<bar>F x - F y\<bar> \<le> 2.86 * \<bar>x - y\<bar> + 6 / 10 ^ 5"
    if "0 \<le> x" "x \<le> 1 / V + 1 / 510" "0 \<le> y" "y \<le> 1 / V + 1 / 510" for x y
    unfolding F_def V_def k_def using that [unfolded V_def] by (rule RIMM_decode_lipschitz)
  note fr = roundtrip_int_frame [where F = F and K = "2.86" and J = "6 / 10 ^ 5" and ymax = "1 / V",
      OF I y0 lip]
  have Xp: "I_max_of b / V * core = y0 * I_max_of b" by (simp add: y0_def)
  have enc: "cctf_encoding_RIMMRGB X b True 2 = Inr (IntCode (np_round (y0 * I_max_of b)))"
    unfolding RIMM_X_p V_def [symmetric] core_def [symmetric] Xp
    using fr(1) by (simp add: int_code_value_Inr [OF b64])
  have dec: "cctf_decoding_RIMMRGB c b True 2 = Inr (F (c / I_max_of b))" for c
    unfolding decode_int_as_float(2) [OF b0] F_def V_def k_def by (rule RIMM_decode_float [OF b0])
  have "cctf_decoding_RIMMRGB y0 b False 2 = Inr X"
    using RIMM_roundtrip_float [OF b0 assms(3), of 2] V(2)
    unfolding V_def [symmetric] core_def [symmetric] y0_def [symmetric] by simp
  then have "F y0 = X"
    unfolding RIMM_decode_float [OF b0] F_def V_def k_def by simp
  then have "\<bar>F (of_int (np_round (y0 * I_max_of b)) / I_max_of b) - X\<bar> \<le> 7 / I_max_of b"
    using fr(2) by simp
  then show ?thesis using enc dec by blast
qed

lemma ERIMM_decode_lipschitz:
  fixes x y L l ymax :: real
  assumes L: "1 \<le> L" "L \<le> 12.6641303" and ymax: "ymax * L + l = 0" and t: "1 / L \<le> ymax"
    and "0 \<le> x" and "x \<le> ymax + 1 / 510" and "0 \<le> y" and "y \<le> ymax + 1 / 510"
  shows "\<bar>(if x \<le> 1 / L then L * (x * exp (1 + l)) else exp (x * L + l))
          - (if y \<le> 1 / L then L * (y * exp (1 + l)) else exp (y * L + l))\<bar>
         \<le> 12.99 * \<bar>x - y\<bar> + 0"
proof (rule piecewise_lipschitz [where lo = 0 and t = "1 / L" and up = "ymax + 1 / 510"])
  have L0: "0 < L" using L(1) by simp
  have "1 / L * L \<le> ymax * L" using t L0 by (intro mult_right_mono) simp_all
  then have l: "1 + l \<le> 0" using ymax L0 by simp
  then have Et: "exp (1 + l) \<le> 1" by simp
  show "0 \<le> 1 / L" using L0 by simp
  show "1 / L \<le> ymax + 1 / 510" using t by simp
  show "\<bar>L * (b * exp (1 + l)) - L * (a * exp (1 + l))\<bar> \<le> 12.99 * (b - a)"
    if "0 \<le> a" "a \<le> b" "b \<le> 1 / L" for a b
  proof -
    have "L * exp (1 + l) \<le> 12.6641303 * 1"
      using L Et by (intro mult_mono) simp_all
    then have "L * exp (1 + l) * (b - a) \<le> 12.6641303 * (b - a)"
      using that(2) by (intro mult_right_mono) simp_all
    moreover have "0 \<le> L * exp (1 + l) * (b - a)" using L0 that(2) by simp
    moreover have "L * (b * exp (1 + l)) - L * (a * exp (1 + l)) = L * exp (1 + l) * (b - a)"
      by (simp add: algebra_simps)
    ultimately show ?thesis using that(2) by simp
  qed
  show "\<bar>exp (b * L + l) - exp (a * L + l)\<bar> \<le> 12.99 * (b - a)"
    if ab: "1 / L \<le> a" "a \<le> b" "b \<le> ymax + 1 / 510" for a b
  proof -
    have m: "a * L + l \<le> b * L + l" using ab(2) L0 by simp
    then have d0: "0 \<le> exp (b * L + l) - exp (a * L + l)" by simp
    have "b * L \<le> (ymax + 1 / 510) * L" using ab(3) L0 by (intro mult_right_mono) simp_all
    then have "b * L + l \<le> L / 510" using ymax by (simp add: algebra_simps)
    also have "\<dots> \<le> 249 / 10000" using L(2) by simp
    finally have "exp (b * L + l) \<le> exp (249 / 10000)" by simp
    also have "\<dots> \<le> 1 + 249 / 10000 + (249 / 10000)\<^sup>2" by (intro exp_bound) simp_all
    also have "\<dots> \<le> 1.0256" by (simp add: power2_eq_square)
    finally have e: "exp (b * L + l) \<le> 1.0256" .
    have s0: "0 \<le> (b - a) * L" using ab(2) L0 by simp
    have s1: "(b - a) * L \<le> (b - a) * 12.6641303" using ab(2) L(2) by (intro mult_left_mono) simp_all
    have "exp (b * L + l) - exp (a * L + l) \<le> exp (b * L + l) * ((b * L + l) - (a * L + l))"
      by (rule exp_diff_le)
    also have "\<dots> = exp (b * L + l) * ((b - a) * L)" by (simp add: algebra_simps)
    also have "\<dots> \<le> 1.0256 * ((b - a) * L)" using e s0 by (intro mult_right_mono) simp_all
    also have "\<dots> \<le> 1.0256 * ((b - a) * 12.6641303)"
      using mult_left_mono [OF s1, of "1.0256"] by simp
    also have "\<dots> \<le> 12.99 * (b - a)" using ab(2) by simp
    finally show ?thesis using d0 by simp
  qed
  show "\<bar>exp (1 / L * L + l) - L * (1 / L * exp (1 + l))\<bar> \<le> 0"
    using L0 by simp
qed (use assms in simp_all)

lemma ERIMM_roundtrip_int:
  assumes "8 \<le> b" and "b \<le> 16" and "0 \<le> X" and "X \<le> 1"
  shows "\<exists>c. log_encoding_ERIMMRGB X b True 0.001 316.2 = Inr (IntCode c)
           \<and> \<bar>log_decoding_ERIMMRGB (of_int c) b True 0.001 316.2 - X\<bar> \<le> 7 / I_max_of b"
proof -
  define l :: real where "l = ln 0.001"
  define L :: real where "L = ln 316.2 - ln 0.001"
  define E_t :: real where "E_t = exp 1 * 0.001"
  define ymax where "ymax = - l / L"
  define y0 where
    "y0 = (if X < 0 then 0 else if X \<le> E_t then (1 / L) * X / E_t else (ln X - l) / L)"
  define F :: "real \<Rightarrow> real" where
    "F = (\<lambda>y. if y \<le> 1 / L then L * (y * E_t) else exp (y * L + l))"
  have b0: "0 < b" and b64: "b \<le> 64" using assms(1,2) by simp_all
  have e: "(0::real) < 0.001" "(0.001::real) < 316.2" by simp_all
  note I = I_max_of_bounds [OF assms(1,2)]
  have "L = ln (316200::real)"
    using ln_div [of "316.2::real" "0.001"] by (simp add: L_def)
  then have L: "12.6641301 < L" "L < 12.6641303"
    using ln_316200_lower ln_316200_upper by simp_all
  then have L0: "0 < L" by simp
  have Et: "E_t = exp (1 + l)" "0 < E_t" by (simp_all add: E_t_def l_def exp_add)
  have "exp 1 \<le> (1000::real)" using exp_le by simp
  then have "ln (exp 1) \<le> ln (1000::real)" by (subst ln_le_cancel_iff) simp_all
  moreover have "ln (1000::real) = - l" using ln_div [of "1::real" "0.001"] by (simp add: l_def)
  ultimately have l1: "1 \<le> - l" by simp
  have yt: "1 / L \<le> ymax" unfolding ymax_def using l1 L0 by (intro divide_right_mono) simp_all
  have ym: "ymax * L + l = 0" using L0 by (simp add: ymax_def)
  have "ln (1000::real) \<le> ln 316200" by (subst ln_le_cancel_iff) simp_all
  then have "- l \<le> L" using \<open>L = ln 316200\<close> \<open>ln 1000 = - l\<close> by simp
  then have "- l / L \<le> L / L" using L0 by (intro divide_right_mono) simp_all
  then have ymax1: "ymax \<le> 1" unfolding ymax_def using L0 by simp
  have y0: "0 \<le> y0" "y0 \<le> ymax"
  proof -
    show "0 \<le> y0"
    proof (cases "X \<le> E_t")
      case True
      then show ?thesis using assms(3) L0 Et(2) by (simp add: y0_def)
    next
      case False
      then have "ln E_t \<le> ln X" using Et(2) by (subst ln_le_cancel_iff) simp_all
      then have "0 \<le> ln X - l" using l1 by (simp add: Et(1))
      then show ?thesis using False assms(3) L0 by (simp add: y0_def)
    qed
    show "y0 \<le> ymax"
    proof (cases "X \<le> E_t")
      case True
      then have "X / E_t \<le> 1" using Et(2) by (simp add: pos_divide_le_eq)
      then have "(1 / L) * (X / E_t) \<le> (1 / L) * 1" using L0 by (intro mult_left_mono) simp_all
      then show ?thesis using True assms(3) yt by (simp add: y0_def)
    next
      case False
      then have "0 < X" using Et(2) by simp
      then have "ln X \<le> ln 1" using assms(4) by (subst ln_le_cancel_iff) simp_all
      then have "(ln X - l) / L \<le> (0 - l) / L" using L0 by (intro divide_right_mono) simp_all
      then show ?thesis using False assms(3) by (simp add: y0_def ymax_def)
    qed
  qed
  have lip: "\<bar>F x - F y\<bar> \<le> 12.99 * \<bar>x - y\<bar> + 0"
    if "0 \<le> x" "x \<le> ymax + 1 / 510" "0 \<le> y" "y \<le> ymax + 1 / 510" for x y
    unfolding F_def Et(1) using L ym yt that by (intro ERIMM_decode_lipschitz) simp_all
  note fr = roundtrip_int_frame [where F = F and K = "12.99" and J = 0 and ymax = ymax,
      OF I y0 ymax1 lip]
  have enc_f: "log_encoding_ERIMMRGB X b False 0.001 316.2 = Inr (FloatVal y0)"
    unfolding ERIMM_float [OF b0 e(1)] y0_def L_def l_def E_t_def by simp
  have Xp: "(if X < 0 then 0 else if X \<le> exp 1 * 0.001
           then I_max_of b * ((ln (exp 1 * 0.001) - ln 0.001) / (ln 316.2 - ln 0.001)) * X / (exp 1 * 0.001)
           else I_max_of b * ((ln X - ln 0.001) / (ln 316.2 - ln 0.001)))
      = y0 * I_max_of b"
    unfolding ERIMM_l_E_t [OF e(1)] y0_def L_def l_def E_t_def by simp
  have enc: "log_encoding_ERIMMRGB X b True 0.001 316.2
      = Inr (IntCode (np_round (y0 * I_max_of b)))"
    unfolding ERIMM_X_p Xp using fr(1) by (simp add: int_code_value_Inr [OF b64])
  have dec_f: "log_decoding_ERIMMRGB y b False 0.001 316.2 = F y" for y
    unfolding ERIMM_decode_float [OF b0 e] F_def L_def l_def E_t_def by simp
  have dec: "log_decoding_ERIMMRGB c b True 0.001 316.2 = F (c / I_max_of b)" for c
    unfolding decode_int_as_float(3) [OF b0] by (rule dec_f)
  have "log_decoding_ERIMMRGB y0 b False 0.001 316.2 = X"
    using ERIMM_roundtrip_float [OF b0 assms(3) e]
    unfolding y0_def L_def l_def E_t_def by simp
  then have "F y0 = X" unfolding dec_f .
  then have "\<bar>log_decoding_ERIMMRGB (of_int (np_round (y0 * I_max_of b))) b True 0.001 316.2 - X\<bar>
      \<le> 7 / I_max_of b"
    using fr(2) unfolding dec by simp
  then show ?thesis using enc by blast
qed

text \<open>
  Claim C2, amended: at the bit depths 8, 10, 12 and 16 and with the default parameters,
  for every \<open>X\<close> in \<open>[0, 1]\<close>, decoding the float-mode encoding returns \<open>X\<close> itself in
  exact arithmetic, for ROMM, RIMM and ERIMM; and decoding the integer code value
  (\<open>out_int\<close> fed to \<open>in_int\<close>) returns \<open>X\<close> within \<open>7 / I_max\<close>, which is about
  \<open>0.0275\<close> at bit depth 8 and \<open>0.000107\<close> at bit depth 16.
\<close>

theorem decode_encode_roundtrip:
  assumes "bit_depth \<in> {8, 10, 12, 16}" and "0 \<le> X" and "X \<le> 1"
  shows "(\<exists>v. cctf_encoding_ROMMRGB X bit_depth False = Inr (FloatVal v)
            \<and> cctf_decoding_ROMMRGB v bit_depth False = X)
       \<and> (\<exists>v. cctf_encoding_RIMMRGB X bit_depth False 2.0 = Inr (FloatVal v)
            \<and> cctf_decoding_RIMMRGB v bit_depth False 2.0 = Inr X)
       \<and> (\<exists>v. log_encoding_ERIMMRGB X bit_depth False 0.001 316.2 = Inr (FloatVal v)
            \<and> log_decoding_ERIMMRGB v bit_depth False 0.001 316.2 = X)
       \<and> (\<exists>c. cctf_encoding_ROMMRGB X bit_depth True = Inr (IntCode c)
            \<and> \<bar>cctf_decoding_ROMMRGB (of_int c) bit_depth True - X\<bar> \<le> 7 / I_max_of bit_depth)
       \<and> (\<exists>c X'. cctf_encoding_RIMMRGB X bit_depth True 2.0 = Inr (IntCode c)
            \<and> cctf_decoding_RIMMRGB (of_int c) bit_depth True 2.0 = Inr X'
            \<and> \<bar>X' - X\<bar> \<le> 7 / I_max_of bit_depth)
       \<and> (\<exists>c. log_encoding_ERIMMRGB X bit_depth True 0.001 316.2 = Inr (IntCode c)
            \<and> \<bar>log_decoding_ERIMMRGB (of_int c) bit_depth True 0.001 316.2 - X\<bar>
                 \<le> 7 / I_max_of bit_depth)"
proof -
  have b: "8 \<le> bit_depth" "bit_depth \<le> 16" "0 < bit_depth" using assms(1) by auto
  have e: "(0::real) < 0.001" "(0.001::real) < 316.2" by simp_all
  have romm_f: "\<exists>v. cctf_encoding_ROMMRGB X bit_depth False = Inr (FloatVal v)
            \<and> cctf_decoding_ROMMRGB v bit_depth False = X"
    using ROMM_float [OF b(3)] ROMM_roundtrip_float [OF b(3) assms(2)] by simp
  have rimm_f: "\<exists>v. cctf_encoding_RIMMRGB X bit_depth False 2.0 = Inr (FloatVal v)
            \<and> cctf_decoding_RIMMRGB v bit_depth False 2.0 = Inr X"
    using RIMM_float [OF b(3)] RIMM_roundtrip_float [OF b(3) assms(2) V_clip_2_pos] by simp
  have erimm_f: "\<exists>v. log_encoding_ERIMMRGB X bit_depth False 0.001 316.2 = Inr (FloatVal v)
            \<and> log_decoding_ERIMMRGB v bit_depth False 0.001 316.2 = X"
    by (intro exI conjI, rule ERIMM_float [OF b(3) e(1)],
        rule ERIMM_roundtrip_float [OF b(3) assms(2) e])
  show ?thesis
    using romm_f rimm_f erimm_f
      ROMM_roundtrip_int [OF b(1,2) assms(2,3)]
      RIMM_roundtrip_int [OF b(1,2) assms(2,3)]
      ERIMM_roundtrip_int [OF b(1,2) assms(2,3)]
    by simp
qed

theorem decode_encode_roundtrip_witness:
  "(\<exists>v. cctf_encoding_ROMMRGB 0.5 8 False = Inr (FloatVal v)
        \<and> cctf_decoding_ROMMRGB v 8 False = 0.5)
   \<and> (\<exists>c. cctf_encoding_ROMMRGB 0.5 8 True = Inr (IntCode c)
        \<and> \<bar>cctf_decoding_ROMMRGB (of_int c) 8 True - 0.5\<bar> \<le> 7 / I_max_of 8)
   \<and> (\<exists>c X'. cctf_encoding_RIMMRGB 0.5 8 True 2.0 = Inr (IntCode c)
        \<and> cctf_decoding_RIMMRGB (of_int c) 8 True 2.0 = Inr X'
        \<and> \<bar>X' - 0.5\<bar> \<le> 7 / I_max_of 8)
   \<and> (\<exists>c. log_encoding_ERIMMRGB 0.5 8 True 0.001 316.2 = Inr (IntCode c)
        \<and> \<bar>log_decoding_ERIMMRGB (of_int c) 8 True 0.001 316.2 - 0.5\<bar> \<le> 7 / I_max_of 8)"
  using decode_encode_roundtrip [of 8 "0.5"] by simp
lemma ln_million_lower: "12.8 < ln (1000000::real)"
proof (rule ln_lower_from_Taylor [where k = 32 and x = "2 / 5" and u = "1.4919"])
  show "(12.8::real) = of_nat 32 * (2 / 5)" by simp
  show "(0::real) \<le> 2 / 5" by simp
  show "(2 / 5 :: real) \<le> 1" by simp
  show "(\<Sum>m<10. (2 / 5 :: real) ^ m / fact m) + 3 * (2 / 5) ^ 10 / fact 10 \<le> 1.4919"
    unfolding taylor10_eval by (simp add: fact_numeral power_divide divide_simps)
  show "(1.4919 :: real) ^ 32 < 1000000"
    by (simp add: power_divide divide_simps)
qed

text \<open>
  Claim C4 at inputs above \<open>E_clip\<close>: the clamping branch of \<open>numpy.select\<close> comes
  after the branch \<open>X \<ge> 0.018\<close> (RIMM) or \<open>X > E_t\<close> (ERIMM), which already holds, so
  it is never chosen. RIMM at \<open>X = 3 > E_clip = 2\<close> and ERIMM at
  \<open>X = 1000 > E_clip = 316.2\<close> return more than \<open>1.0\<close> in float mode and more than
  \<open>I_max = 255\<close> in integer mode.
\<close>

theorem encode_above_clip_exceeds_I_max:
  "(2::real) < 3
   \<and> (\<exists>v. cctf_encoding_RIMMRGB 3 8 False 2.0 = Inr (FloatVal v) \<and> 1 < v)
   \<and> (\<exists>c. cctf_encoding_RIMMRGB 3 8 True 2.0 = Inr (IntCode c) \<and> 255 < c)
   \<and> (316.2::real) < 1000
   \<and> (\<exists>v. log_encoding_ERIMMRGB 1000 8 False 0.001 316.2 = Inr (FloatVal v) \<and> 1 < v)
   \<and> (\<exists>c. log_encoding_ERIMMRGB 1000 8 True 0.001 316.2 = Inr (IntCode c) \<and> 255 < c)"
proof -
  have code: "\<exists>c. int_code_value 8 x = Inr (IntCode c) \<and> 255 < c"
    if "256 \<le> x" "x \<le> 1000000000" for x
  proof -
    have "np_round (of_int 256) \<le> np_round x" using that(1) by (intro np_round_mono) simp
    then have lo: "256 \<le> np_round x" by (simp only: np_round_of_int)
    have "x \<le> of_int 1000000000" using that(2) by simp
    then have hi: "np_round x \<le> 1000000000" by (rule np_round_le_int)
    have "int_code_value 8 x = Inr (IntCode (np_round x))"
      using lo hi by (intro int_code_value_in_range) simp_all
    then show ?thesis using lo by simp
  qed
  have V: "0 < V_clip_of 2" using V_clip_2_bounds(1) by simp
  have "(1.6::real) \<le> 3 powr (real 9 / real 20)"
    by (rule powr_ge_from_power) (simp_all add: power_divide divide_simps)
  then have p3: "(1.6::real) \<le> 3 powr 0.45" by simp
  have "(3::real) powr 0.45 \<le> 3 powr 1" by (intro powr_mono) simp_all
  then have q3: "(3::real) powr 0.45 \<le> 3" by simp
  have "1 < (1.099 * 3 powr 0.45 - 0.099) / V_clip_of 2"
    using p3 V_clip_2_bounds V by (simp add: pos_less_divide_eq)
  then have rimm_f: "\<exists>v. cctf_encoding_RIMMRGB 3 8 False 2.0 = Inr (FloatVal v) \<and> 1 < v"
    by (simp add: RIMM_value)
  have rimm_i: "\<exists>c. cctf_encoding_RIMMRGB 3 8 True 2.0 = Inr (IntCode c) \<and> 255 < c"
  proof -
    have "256 \<le> 255 * (1.099 * 3 powr 0.45 - 0.099) / V_clip_of 2"
      using p3 V_clip_2_bounds V by (simp add: pos_le_divide_eq)
    moreover have "255 * (1.099 * 3 powr 0.45 - 0.099) / V_clip_of 2 \<le> 1000000000"
      using q3 V_clip_2_bounds V by (simp add: pos_divide_le_eq)
    ultimately show ?thesis
      using code [of "255 / V_clip_of 2 * (1.099 * 3 powr 0.45 - 0.099)"]
      by (simp add: RIMM_value I_max_of_8)
  qed
  have B: "0 < ln (316200::real)" using ln_316200_lower by simp
  have up: "ln (1000000::real) \<le> 1000000"
    using ln_le_minus_one [of "1000000::real"] by simp
  have "1 < ln 1000000 / ln (316200::real)"
    using ln_million_lower ln_316200_upper B by (simp add: pos_less_divide_eq)
  then have erimm_f: "\<exists>v. log_encoding_ERIMMRGB 1000 8 False 0.001 316.2 = Inr (FloatVal v) \<and> 1 < v"
    using ERIMM_value(1) [of 1000] by simp
  have erimm_i: "\<exists>c. log_encoding_ERIMMRGB 1000 8 True 0.001 316.2 = Inr (IntCode c) \<and> 255 < c"
  proof -
    have "256 \<le> 255 * ln 1000000 / ln (316200::real)"
      using ln_million_lower ln_316200_upper B by (simp add: pos_le_divide_eq)
    moreover have "255 * ln 1000000 / ln (316200::real) \<le> 1000000000"
      using up ln_316200_lower B by (simp add: pos_divide_le_eq)
    ultimately show ?thesis
      using code [of "255 * (ln 1000000 / ln (316200::real))"] ERIMM_value(2) [of 1000]
      by simp
  qed
  show ?thesis using rimm_f rimm_i erimm_f erimm_i by simp
qed

section \<open>Facts about the reader\<close>

lemmas codec_eval =
  is_space_def is_digit_def digit_value_def str_strip_def startswith_def str_split_def
  readlines_def nat_of_digits_def unsigned_float_of_string_def float_of_string_def
  unsigned_int_of_string_def int_of_string_def as_float_array_def as_float_array2_def
  as_int_scalar_def read_line_def stripped_lines_def initial_state_def build_LUT_def
  LUT1D_init_def LUT3x1D_init_def np_squeeze_def Let_def

lemma minimal_lines:
  "stripped_lines minimal_spi1d =
     [''Version 1'', ''From -0.1 1.5'', ''Length 2'', ''Components 1'', ''{'', ''0.0'', ''1.0'', ''}'', ''# test'']"
  by (simp add: minimal_spi1d_def codec_eval)

lemma minimal_state:
  "read_lines initial_state (stripped_lines minimal_spi1d) =
     Inr \<lparr>domain_min = - 0.1, domain_max = 1.5, dimensions = 1, data = [[''0.0''], [''1.0'']],
          comments_read = [''test'']\<rparr>"
  unfolding minimal_lines by (simp add: codec_eval)

text \<open>
  Claim C7: the minimal two-sample file (\<open>Version 1\<close>, \<open>From -0.1 1.5\<close>,
  \<open>Length 2\<close>, \<open>Components 1\<close>, the rows \<open>0.0\<close> and \<open>1.0\<close> between braces, and the
  comment \<open># test\<close>) is read as the \<open>LUT1D\<close> with domain \<open>[-0.1, 1.5]\<close>, table
  \<open>[0.0, 1.0]\<close> and comments \<open>[test]\<close>, whatever title the path gives.
\<close>

theorem read_minimal_file:
  "read_LUT_SonySPI1D path_to_title [''test.spi1d'' \<mapsto> minimal_spi1d] ''test.spi1d''
     = Inr (LUT1D \<lparr>table = [0.0, 1.0], name = path_to_title ''test.spi1d'',
                    domain = [- 0.1, 1.5], comments = [''test'']\<rparr>)"
  unfolding read_LUT_SonySPI1D_def Let_def
  by (simp add: minimal_state) (simp add: codec_eval)



























section \<open>Facts about the writer and the round trip\<close>












lemma digit_char_cases:
  "digit_char n \<in> set ''0123456789'' \<and> is_digit (digit_char n) \<and> digit_value (digit_char n) = n mod 10"
proof -
  have "n mod 10 = 0 \<or> n mod 10 = 1 \<or> n mod 10 = 2 \<or> n mod 10 = 3 \<or> n mod 10 = 4
      \<or> n mod 10 = 5 \<or> n mod 10 = 6 \<or> n mod 10 = 7 \<or> n mod 10 = 8 \<or> n mod 10 = 9"
    by presburger
  then show ?thesis
    by (elim disjE) (simp_all add: digit_char_def is_digit_def digit_value_def)
qed

lemma is_digit_digit_char [simp]: "is_digit (digit_char n)"
  using digit_char_cases by blast

lemma digit_value_digit_char [simp]: "digit_value (digit_char n) = n mod 10"
  using digit_char_cases by blast





















lemma str_split_leading_space: "is_space c \<Longrightarrow> str_split (c # rest) = str_split rest"
  by (simp add: str_split_def)













































end
